theory Spec2Isabelle
  imports Main
begin

section \<open>Atlassian document nodes\<close>

text \<open>
  The service reads documents in the Atlassian Document Format as untyped JSON
  (\<^verbatim>\<open>content: any[]\<close>). A node is modelled by the four properties the code ever reads:
  \<^verbatim>\<open>type\<close>, \<^verbatim>\<open>text\<close>, \<^verbatim>\<open>attrs\<close> (of which only \<^verbatim>\<open>url\<close> is read) and \<^verbatim>\<open>content\<close>. Each of them
  may be absent (\<open>None\<close>). Strings are character lists.
\<close>

record attrs =
  url :: "string option"

datatype node =
  Node (node_type: "string option") (node_text: "string option")
       (node_attrs: "attrs option") (node_content: "node list option")

text \<open>
  JavaScript truthiness of an optional string: \<^verbatim>\<open>undefined\<close> and \<^verbatim>\<open>""\<close> are falsy.
  \<open>or_empty s\<close> is \<^verbatim>\<open>s || ""\<close>.
\<close>

definition truthy :: "string option \<Rightarrow> bool" where
  "truthy s = (case s of None \<Rightarrow> False | Some t \<Rightarrow> t \<noteq> [])"

definition or_empty :: "string option \<Rightarrow> string" where
  "or_empty s = (case s of None \<Rightarrow> [] | Some t \<Rightarrow> t)"

text \<open>\<^verbatim>\<open>node.attrs?.url\<close>\<close>

definition attrs_url :: "node \<Rightarrow> string option" where
  "attrs_url n = (case node_attrs n of None \<Rightarrow> None | Some a \<Rightarrow> url a)"

lemma size_node_content:
  "node_content x = Some y \<Longrightarrow> size_list size y < size x"
  by (cases x) simp

lemma size_child_content:
  "x \<in> set content \<Longrightarrow> node_content x = Some y \<Longrightarrow> size_list size y < size_list size content"
  using size_node_content [of x y] size_list_estimation [of x content "size_list size y" size]
  by simp

lemma size_child_node:
  "node_content n = Some cs \<Longrightarrow> c \<in> set cs \<Longrightarrow> size c < size n"
  using size_node_content [of n cs] size_list_estimation' [of c cs "size c" size]
  by simp

section \<open>Document Text Extractor\<close>

text \<open>
  \<^verbatim>\<open>extractTextContent(content)\<close>. The argument \<open>None\<close> stands for a missing or non-array
  argument (\<^verbatim>\<open>!Array.isArray(content)\<close>). For each node, in order: a node of type
  \<^verbatim>\<open>"text"\<close> returns \<^verbatim>\<open>node.text || ""\<close>; otherwise a node with a \<^verbatim>\<open>content\<close> returns the
  extraction of that content; otherwise \<^verbatim>\<open>""\<close>. The pieces are joined with no separator.
\<close>

function extractTextContent :: "node list option \<Rightarrow> string" where
  "extractTextContent None = []"
| "extractTextContent (Some content) =
     concat (map (\<lambda>node.
        if node_type node = Some ''text'' then or_empty (node_text node)
        else if node_content node \<noteq> None then extractTextContent (node_content node)
        else []) content)"
  by pat_completeness auto
termination
  by (relation "measure (size_option (size_list size))") (auto simp: size_child_content)

text \<open>
  \<^verbatim>\<open>createAdfFromBody(text)\<close>: a document with one paragraph holding one text node. The
  document's \<^verbatim>\<open>version\<close> and \<^verbatim>\<open>type\<close> are constants.
\<close>

record AdfDoc =
  doc_version :: nat
  doc_type :: string
  doc_content :: "node list"

definition createAdfFromBody :: "string \<Rightarrow> AdfDoc" where
  "createAdfFromBody text =
     \<lparr> doc_version = 1,
       doc_type = ''doc'',
       doc_content =
         [Node (Some ''paragraph'') None None
            (Some [Node (Some ''text'') (Some text) None None])] \<rparr>"

section \<open>Issue-key patterns\<close>

text \<open>
  The two regular expressions of the source, \<^verbatim>\<open>/[A-Z]+-\d+/g\<close> and
  \<^verbatim>\<open>/\/browse\/([A-Z]+-\d+)/\<close>, as scanners. \<^verbatim>\<open>[A-Z]\<close> is a code unit from 65 to 90 and
  \<^verbatim>\<open>\d\<close> one from 48 to 57.

  \<open>issue_key_at s\<close> tries the pattern \<^verbatim>\<open>[A-Z]+-\d+\<close> at the start of \<open>s\<close>. Both
  repetitions are greedy, and giving back letters never helps (the character after a
  shorter run of letters is a letter, not the hyphen), so the attempt succeeds exactly
  when the longest run of letters is non-empty and is followed by a hyphen and a digit;
  the match then takes the longest run of digits. The result is the match and the rest.
\<close>

definition is_upper :: "char \<Rightarrow> bool" where
  "is_upper c = (let n = (of_char c :: nat) in 65 \<le> n \<and> n \<le> 90)"

definition is_digit :: "char \<Rightarrow> bool" where
  "is_digit c = (let n = (of_char c :: nat) in 48 \<le> n \<and> n \<le> 57)"

definition issue_key_at :: "string \<Rightarrow> (string \<times> string) option" where
  "issue_key_at s =
     (let us = takeWhile is_upper s; r1 = dropWhile is_upper s in
      if us = [] then None
      else (case r1 of
              [] \<Rightarrow> None
            | c # r2 \<Rightarrow>
                if c \<noteq> CHR ''-'' then None
                else (let ds = takeWhile is_digit r2 in
                      if ds = [] then None
                      else Some (us @ CHR ''-'' # ds, dropWhile is_digit r2))))"

lemma issue_key_at_splits:
  "issue_key_at s = Some (k, r) \<Longrightarrow> s = k @ r \<and> k \<noteq> []"
proof -
  assume a: "issue_key_at s = Some (k, r)"
  have s: "s = takeWhile is_upper s @ dropWhile is_upper s" by simp
  from a obtain r2 where
    r1: "dropWhile is_upper s = CHR ''-'' # r2" and
    k: "k = takeWhile is_upper s @ CHR ''-'' # takeWhile is_digit r2" and
    r: "r = dropWhile is_digit r2"
    by (auto simp: issue_key_at_def Let_def split: if_splits list.splits)
  have "k @ r = takeWhile is_upper s @ CHR ''-'' # (takeWhile is_digit r2 @ dropWhile is_digit r2)"
    using k r by simp
  also have "\<dots> = takeWhile is_upper s @ dropWhile is_upper s"
    using r1 by simp
  finally show ?thesis using k by simp
qed

lemma issue_key_at_shorter:
  "issue_key_at s = Some (k, r) \<Longrightarrow> length r < length s"
  using issue_key_at_splits [of s k r] by (cases k) auto

text \<open>
  \<open>match_issue_keys s\<close> is the list of matches of \<^verbatim>\<open>s.match(/[A-Z]+-\d+/g)\<close>: the scan
  tries each position from the left, and after a match resumes at its end.
  \<open>match_g s\<close> is the method's result, \<^verbatim>\<open>null\<close> when nothing matches.
\<close>

function match_issue_keys :: "string \<Rightarrow> string list" where
  "match_issue_keys s =
     (if s = [] then []
      else (case issue_key_at s of
              Some (k, r) \<Rightarrow> k # match_issue_keys r
            | None \<Rightarrow> match_issue_keys (tl s)))"
  by pat_completeness auto
termination
  by (relation "measure length") (auto simp: issue_key_at_shorter)

declare match_issue_keys.simps [simp del]

definition match_g :: "string \<Rightarrow> string list option" where
  "match_g s = (let ks = match_issue_keys s in if ks = [] then None else Some ks)"

text \<open>
  \<open>match_browse_key u\<close> is the capture group of \<^verbatim>\<open>u.match(/\/browse\/([A-Z]+-\d+)/)\<close>:
  the first position where \<^verbatim>\<open>/browse/\<close> is followed by an issue key.
\<close>

fun match_browse_key :: "string \<Rightarrow> string option" where
  "match_browse_key [] = None"
| "match_browse_key (c # cs) =
     (case (if take 8 (c # cs) = ''/browse/'' then issue_key_at (drop 8 (c # cs)) else None) of
        Some (k, r) \<Rightarrow> Some k
      | None \<Rightarrow> match_browse_key cs)"

section \<open>Mention Extractor\<close>

datatype mention_type = Mention | Link

datatype source = Description | Comment

text \<open>
  An entry of \<^verbatim>\<open>relatedIssues\<close>. A property the source does not set is \<open>None\<close>.
\<close>

record mention =
  m_key :: string
  m_type :: mention_type
  m_source :: source
  m_commentId :: "string option"
  m_summary :: "string option"
  m_relationship :: "string option"

text \<open>The object literal both pushes of \<^verbatim>\<open>processNode\<close> build.\<close>

definition text_mention :: "source \<Rightarrow> string option \<Rightarrow> string \<Rightarrow> mention" where
  "text_mention src cid k =
     \<lparr> m_key = k, m_type = Mention, m_source = src, m_commentId = cid,
       m_summary = None, m_relationship = None \<rparr>"

text \<open>
  \<^verbatim>\<open>processNode\<close> pushes to the array \<^verbatim>\<open>mentions\<close> of the enclosing call; the model passes
  the array in and returns it updated.
\<close>

function processNode :: "source \<Rightarrow> string option \<Rightarrow> node \<Rightarrow> mention list \<Rightarrow> mention list" where
  "processNode src cid node mentions =
     (let m1 = (if node_type node = Some ''inlineCard'' \<and> truthy (attrs_url node)
                then (case match_browse_key (or_empty (attrs_url node)) of
                        Some k \<Rightarrow> mentions @ [text_mention src cid k]
                      | None \<Rightarrow> mentions)
                else mentions);
          m2 = (if node_type node = Some ''text'' \<and> truthy (node_text node)
                then fold (\<lambda>k acc. acc @ [text_mention src cid k])
                       (case match_g (or_empty (node_text node)) of None \<Rightarrow> [] | Some ks \<Rightarrow> ks) m1
                else m1)
      in case node_content node of
           None \<Rightarrow> m2
         | Some cs \<Rightarrow> fold (\<lambda>n acc. processNode src cid n acc) cs m2)"
  by pat_completeness auto
termination
  by (relation "measure (\<lambda>(src, cid, n, ms). size n)") (auto simp: size_child_node)

declare processNode.simps [simp del]

text \<open>
  A JavaScript \<^verbatim>\<open>Map\<close> as the list of its entries in insertion order. Setting a key that
  is present replaces its value and keeps its place; a new key goes last.
\<close>

fun map_set :: "('k \<times> 'v) list \<Rightarrow> 'k \<Rightarrow> 'v \<Rightarrow> ('k \<times> 'v) list" where
  "map_set [] k v = [(k, v)]"
| "map_set ((k', v') # es) k v =
     (if k' = k then (k', v) # es else (k', v') # map_set es k v)"

definition new_Map :: "('k \<times> 'v) list \<Rightarrow> ('k \<times> 'v) list" where
  "new_Map entries = fold (\<lambda>(k, v) m. map_set m k v) entries []"

definition map_values :: "('k \<times> 'v) list \<Rightarrow> 'v list" where
  "map_values m = map snd m"

text \<open>The array \<^verbatim>\<open>mentions\<close> after \<^verbatim>\<open>content.forEach(processNode)\<close>.\<close>

definition collectMentions :: "node list \<Rightarrow> source \<Rightarrow> string option \<Rightarrow> mention list" where
  "collectMentions content src cid = fold (\<lambda>n acc. processNode src cid n acc) content []"

definition extractIssueMentions :: "node list \<Rightarrow> source \<Rightarrow> string option \<Rightarrow> mention list" where
  "extractIssueMentions content src cid =
     map_values (new_Map (map (\<lambda>m. (m_key m, m)) (collectMentions content src cid)))"


section \<open>Issue Normalizer\<close>

text \<open>
  The raw payloads of the Jira REST interface, with the properties \<^verbatim>\<open>cleanIssue\<close> and
  \<^verbatim>\<open>cleanComment\<close> read. A property read through \<^verbatim>\<open>?.\<close> or tested for truthiness is
  optional. Field names carry a prefix where two records share a property name.
\<close>

record ref_fields =
  rf_summary :: "string option"

text \<open>An issue as it appears inside another one: a parent, a subtask, a linked issue.\<close>

record raw_ref =
  r_id :: string
  r_key :: string
  r_fields :: "ref_fields option"

record link_type =
  inward :: "string option"
  outward :: "string option"

record raw_link =
  l_type :: link_type
  inwardIssue :: "raw_ref option"
  outwardIssue :: "raw_ref option"

record raw_status =
  st_name :: "string option"

record raw_doc =
  d_content :: "node list option"

record raw_fields =
  f_summary :: "string option"
  f_status :: "raw_status option"
  f_created :: "string option"
  f_updated :: "string option"
  f_description :: "raw_doc option"
  f_issuelinks :: "raw_link list option"
  f_parent :: "raw_ref option"
  f_customfield_10014 :: "string option"
  f_subtasks :: "raw_ref list option"

record raw_issue =
  i_id :: string
  i_key :: string
  i_fields :: "raw_fields option"

record raw_author =
  displayName :: "string option"

record raw_comment =
  rc_id :: string
  rc_body :: "raw_doc option"
  rc_author :: "raw_author option"
  rc_created :: string
  rc_updated :: string

text \<open>The cleaned shapes \<^verbatim>\<open>CleanComment\<close> and \<^verbatim>\<open>CleanJiraIssue\<close>.\<close>

record issue_summary =
  s_id :: string
  s_key :: string
  s_summary :: "string option"

record CleanComment =
  c_id :: string
  c_body :: string
  c_author :: "string option"
  c_created :: string
  c_updated :: string
  c_mentions :: "mention list"

record CleanJiraIssue =
  issue_id :: string
  issue_key :: string
  summary :: "string option"
  status :: "string option"
  created :: "string option"
  updated :: "string option"
  description :: string
  relatedIssues :: "mention list"
  parent :: "issue_summary option"
  epicLink :: "issue_summary option"
  children :: "issue_summary list option"
  comments :: "CleanComment list option"

text \<open>
  A JavaScript exception: \<^verbatim>\<open>Error\<close> and its subclasses \<^verbatim>\<open>TypeError\<close> and \<^verbatim>\<open>SyntaxError\<close>,
  each with its message.
\<close>

datatype error = Error string | TypeError string | SyntaxError string

fun message :: "error \<Rightarrow> string" where
  "message (Error m) = m"
| "message (TypeError m) = m"
| "message (SyntaxError m) = m"

text \<open>\<^verbatim>\<open>x?.content\<close> of a description or a comment body.\<close>

definition content_of :: "raw_doc option \<Rightarrow> node list option" where
  "content_of d = (case d of None \<Rightarrow> None | Some b \<Rightarrow> d_content b)"

text \<open>\<^verbatim>\<open>x.fields?.summary\<close>\<close>

definition ref_summary :: "raw_ref \<Rightarrow> string option" where
  "ref_summary r = (case r_fields r of None \<Rightarrow> None | Some f \<Rightarrow> rf_summary f)"

definition cleanComment :: "raw_comment \<Rightarrow> CleanComment" where
  "cleanComment comment =
     (let body = (case content_of (rc_body comment) of
                    Some content \<Rightarrow> extractTextContent (Some content)
                  | None \<Rightarrow> []);
          mentions = (case content_of (rc_body comment) of
                        Some content \<Rightarrow> extractIssueMentions content Comment (Some (rc_id comment))
                      | None \<Rightarrow> [])
      in \<lparr> c_id = rc_id comment,
           c_body = body,
           c_author = (case rc_author comment of None \<Rightarrow> None | Some a \<Rightarrow> displayName a),
           c_created = rc_created comment,
           c_updated = rc_updated comment,
           c_mentions = mentions \<rparr>)"

text \<open>
  The callback of \<^verbatim>\<open>issuelinks.map\<close>. \<^verbatim>\<open>link.inwardIssue || link.outwardIssue\<close> is the inward
  issue when there is one; reading \<^verbatim>\<open>key\<close> of \<^verbatim>\<open>undefined\<close> throws when the link has
  neither. \<^verbatim>\<open>link.type.inward || link.type.outward\<close> is the inward label when it is a
  non-empty string, and otherwise whatever the outward label is.
\<close>

definition link_mention :: "raw_link \<Rightarrow> error + mention" where
  "link_mention link =
     (let linkedIssue = (case inwardIssue link of Some i \<Rightarrow> Some i | None \<Rightarrow> outwardIssue link);
          relationship = (if truthy (inward (l_type link)) then inward (l_type link)
                          else outward (l_type link))
      in case linkedIssue of
           None \<Rightarrow> Inl (TypeError ''Cannot read properties of undefined (reading 'key')'')
         | Some li \<Rightarrow>
             Inr \<lparr> m_key = r_key li, m_type = Link, m_source = Description,
                   m_commentId = None, m_summary = ref_summary li,
                   m_relationship = relationship \<rparr>)"

text \<open>\<^verbatim>\<open>xs.map(f)\<close> for a callback that may throw: the first exception ends the loop.\<close>

fun map_throwing :: "('a \<Rightarrow> error + 'b) \<Rightarrow> 'a list \<Rightarrow> error + 'b list" where
  "map_throwing f [] = Inr []"
| "map_throwing f (x # xs) =
     (case f x of
        Inl e \<Rightarrow> Inl e
      | Inr y \<Rightarrow> (case map_throwing f xs of Inl e \<Rightarrow> Inl e | Inr ys \<Rightarrow> Inr (y # ys)))"

definition ref_summary_of :: "raw_ref \<Rightarrow> issue_summary" where
  "ref_summary_of r = \<lparr> s_id = r_id r, s_key = r_key r, s_summary = ref_summary r \<rparr>"

text \<open>\<^verbatim>\<open>issue.fields?.x\<close> for a property \<open>x\<close> of the fields.\<close>

definition fields_get :: "raw_issue \<Rightarrow> (raw_fields \<Rightarrow> 'a option) \<Rightarrow> 'a option" where
  "fields_get issue get = (case i_fields issue of None \<Rightarrow> None | Some f \<Rightarrow> get f)"

text \<open>
  \<^verbatim>\<open>cleanIssue\<close>. The only exception it can throw on a payload of these types is the one
  of a link with no issue on either side.
\<close>

definition cleanIssue :: "raw_issue \<Rightarrow> error + CleanJiraIssue" where
  "cleanIssue issue =
     (let content = content_of (fields_get issue f_description);
          description = (case content of
                           Some c \<Rightarrow> extractTextContent (Some c)
                         | None \<Rightarrow> []);
          mentions = (case content of
                        Some c \<Rightarrow> extractIssueMentions c Description None
                      | None \<Rightarrow> []);
          related0 = (if length mentions > 0 then mentions else []);
          issuelinks = (case fields_get issue f_issuelinks of None \<Rightarrow> [] | Some ls \<Rightarrow> ls)
      in case (if length issuelinks > 0 then map_throwing link_mention issuelinks else Inr []) of
           Inl e \<Rightarrow> Inl e
         | Inr links \<Rightarrow>
             Inr \<lparr> issue_id = i_id issue,
                   issue_key = i_key issue,
                   summary = fields_get issue f_summary,
                   status = (case fields_get issue f_status of None \<Rightarrow> None | Some s \<Rightarrow> st_name s),
                   created = fields_get issue f_created,
                   updated = fields_get issue f_updated,
                   description = description,
                   relatedIssues = (if length issuelinks > 0 then related0 @ links else related0),
                   parent = (case fields_get issue f_parent of
                               None \<Rightarrow> None
                             | Some p \<Rightarrow> Some (ref_summary_of p)),
                   epicLink = (if truthy (fields_get issue f_customfield_10014)
                               then Some \<lparr> s_id = or_empty (fields_get issue f_customfield_10014),
                                           s_key = or_empty (fields_get issue f_customfield_10014),
                                           s_summary = None \<rparr>
                               else None),
                   children = (case fields_get issue f_subtasks of
                                 None \<Rightarrow> None
                               | Some ts \<Rightarrow>
                                   if length ts > 0 then Some (map ref_summary_of ts) else None),
                   comments = None \<rparr>)"

section \<open>The HTTP client\<close>

text \<open>
  The transport is a parameter. A response carries \<^verbatim>\<open>status\<close> and \<^verbatim>\<open>statusText\<close>,
  and its body as \<^verbatim>\<open>response.json()\<close> gives it, read in the two ways the code reads it:
  as the error payload of \<^verbatim>\<open>handleFetchError\<close> (\<open>None\<close> when the body does not parse to an
  object) and as the payload of the endpoint (\<open>Inl\<close> the message of the \<^verbatim>\<open>SyntaxError\<close>
  when it does not parse).
\<close>

record error_data =
  errorMessages :: "string list option"
  error_message :: "string option"
  errorMessage :: "string option"

record 'a response =
  resp_status :: nat
  resp_statusText :: string
  resp_error_json :: "error_data option"
  resp_json :: "string + 'a"

text \<open>\<^verbatim>\<open>response.ok\<close>: the status is in the range 200 to 299.\<close>

definition resp_ok :: "'a response \<Rightarrow> bool" where
  "resp_ok response = (200 \<le> resp_status response \<and> resp_status response \<le> 299)"

text \<open>\<^verbatim>\<open>fetch\<close> rejects with a \<^verbatim>\<open>TypeError\<close> on a network failure, or resolves to a response.\<close>

datatype 'a fetch_result = Rejected string | Responded "'a response"

text \<open>Decimal digits of a number, as a template literal prints \<^verbatim>\<open>response.status\<close>.\<close>

definition digit_char :: "nat \<Rightarrow> char" where
  "digit_char d = char_of (48 + d)"

function show_nat :: "nat \<Rightarrow> string" where
  "show_nat n = (if n < 10 then [digit_char n] else show_nat (n div 10) @ [digit_char (n mod 10)])"
  by pat_completeness auto
termination
  by (relation "measure id") auto

declare show_nat.simps [simp del]

text \<open>\<^verbatim>\<open>xs.join(sep)\<close> and \<^verbatim>\<open>s.includes(sub)\<close>\<close>

fun join :: "string \<Rightarrow> string list \<Rightarrow> string" where
  "join sep [] = []"
| "join sep [x] = x"
| "join sep (x # y # ys) = x @ sep @ join sep (y # ys)"

fun str_includes :: "string \<Rightarrow> string \<Rightarrow> bool" where
  "str_includes [] sub = (sub = [])"
| "str_includes (c # cs) sub = (take (length sub) (c # cs) = sub \<or> str_includes cs sub)"

text \<open>
  \<^verbatim>\<open>handleFetchError\<close> always throws; the model returns the exception. The message is the
  status text unless the error payload has a non-empty \<^verbatim>\<open>errorMessages\<close> array, or else a
  truthy \<^verbatim>\<open>message\<close>, or else a truthy \<^verbatim>\<open>errorMessage\<close>.
\<close>

definition handleFetchError :: "'a response \<Rightarrow> error" where
  "handleFetchError response =
     (if \<not> resp_ok response then
        (let msg =
           (case resp_error_json response of
              None \<Rightarrow> resp_statusText response
            | Some errorData \<Rightarrow>
                if (case errorMessages errorData of None \<Rightarrow> False | Some ms \<Rightarrow> length ms > 0)
                then join ''; '' (case errorMessages errorData of None \<Rightarrow> [] | Some ms \<Rightarrow> ms)
                else if truthy (error_message errorData) then or_empty (error_message errorData)
                else if truthy (errorMessage errorData) then or_empty (errorMessage errorData)
                else resp_statusText response);
             errorMessage = (if msg \<noteq> [] then '': '' @ msg else [])
         in Error (''JIRA API Error'' @ errorMessage @
                   '' (Status: '' @ show_nat (resp_status response) @ '')''))
      else Error ''Unknown error occurred during fetch operation.'')"

definition fetchJson :: "'a fetch_result \<Rightarrow> error + 'a" where
  "fetchJson r =
     (case r of
        Rejected m \<Rightarrow> Inl (TypeError m)
      | Responded response \<Rightarrow>
          if \<not> resp_ok response then Inl (handleFetchError response)
          else (case resp_json response of
                  Inl m \<Rightarrow> Inl (SyntaxError m)
                | Inr v \<Rightarrow> Inr v))"

text \<open>
  \<^verbatim>\<open>Promise.all\<close> of the two requests of \<^verbatim>\<open>getIssueWithComments\<close>: both results when both
  succeed, and otherwise the rejection that comes first. Which of two rejections comes
  first is up to the network, so it is a parameter.
\<close>

datatype settle_order = IssueFirst | CommentsFirst

definition promise_all ::
  "settle_order \<Rightarrow> error + 'a \<Rightarrow> error + 'b \<Rightarrow> error + ('a \<times> 'b)" where
  "promise_all order p q =
     (case (p, q) of
        (Inr a, Inr b) \<Rightarrow> Inr (a, b)
      | (Inl e, Inr b) \<Rightarrow> Inl e
      | (Inr a, Inl e) \<Rightarrow> Inl e
      | (Inl e1, Inl e2) \<Rightarrow> Inl (if order = IssueFirst then e1 else e2))"

record comments_data =
  cd_comments :: "raw_comment list"

record epic_data =
  e_fields :: "ref_fields option"

text \<open>
  The service's world: its base URL, what each request path answers (by the shape the
  caller reads the answer in), and the order in which the two parallel requests settle.
\<close>

record transport =
  baseUrl :: string
  fetch_issue :: "string \<Rightarrow> raw_issue fetch_result"
  fetch_comments :: "string \<Rightarrow> comments_data fetch_result"
  fetch_epic :: "string \<Rightarrow> epic_data fetch_result"
  settles :: settle_order

text \<open>The \<^verbatim>\<open>URLSearchParams\<close> of \<^verbatim>\<open>getIssueWithComments\<close>, as its \<^verbatim>\<open>toString\<close> prints them.\<close>

definition issue_params :: string where
  "issue_params =
     ''fields=id%2Ckey%2Csummary%2Cdescription%2Cstatus%2Ccreated%2Cupdated%2Cparent'' @
     ''%2Csubtasks%2Ccustomfield_10014%2Cissuelinks&expand=names%2CrenderedFields''"

text \<open>The three addresses \<^verbatim>\<open>getIssueWithComments\<close> requests.\<close>

definition issue_url :: "transport \<Rightarrow> string \<Rightarrow> string" where
  "issue_url t issueId = baseUrl t @ ''/rest/api/3/issue/'' @ issueId @ ''?'' @ issue_params"

definition comments_url :: "transport \<Rightarrow> string \<Rightarrow> string" where
  "comments_url t issueId = baseUrl t @ ''/rest/api/3/issue/'' @ issueId @ ''/comment''"

definition epic_url :: "transport \<Rightarrow> string \<Rightarrow> string" where
  "epic_url t epicKey = baseUrl t @ ''/rest/api/3/issue/'' @ epicKey @ ''?fields=summary''"

text \<open>The issue once the comments are cleaned and their mentions appended.\<close>

definition with_comments :: "CleanJiraIssue \<Rightarrow> comments_data \<Rightarrow> CleanJiraIssue" where
  "with_comments issue commentsData =
     (let cs = map cleanComment (cd_comments commentsData);
          commentMentions = concat (map c_mentions cs)
      in issue \<lparr> relatedIssues := relatedIssues issue @ commentMentions,
                 comments := Some cs \<rparr>)"

text \<open>
  The last step: the epic's summary is fetched when the issue has an epic link; a failure
  of that request is caught and logged.
\<close>

definition with_epic_summary :: "transport \<Rightarrow> CleanJiraIssue \<Rightarrow> CleanJiraIssue" where
  "with_epic_summary t issue =
     (case epicLink issue of
        None \<Rightarrow> issue
      | Some epic \<Rightarrow>
          (case fetchJson (fetch_epic t (epic_url t (s_key epic))) of
             Inl e \<Rightarrow> issue
           | Inr epicData \<Rightarrow>
               issue \<lparr> epicLink := Some (epic \<lparr> s_summary :=
                 (case e_fields epicData of None \<Rightarrow> None | Some f \<Rightarrow> rf_summary f) \<rparr>) \<rparr>))"

definition getIssueWithComments :: "transport \<Rightarrow> string \<Rightarrow> error + CleanJiraIssue" where
  "getIssueWithComments t issueId =
     (case promise_all (settles t)
             (fetchJson (fetch_issue t (issue_url t issueId)))
             (fetchJson (fetch_comments t (comments_url t issueId))) of
        Inl e \<Rightarrow>
          if str_includes (message e) ''(Status: 404)''
          then Inl (Error (''Issue not found: '' @ issueId))
          else Inl e
      | Inr (issueData, commentsData) \<Rightarrow>
          (case cleanIssue issueData of
             Inl e \<Rightarrow> Inl e
           | Inr issue \<Rightarrow> Inr (with_epic_summary t (with_comments issue commentsData))))"


section \<open>Notions of the specification\<close>

text \<open>
  The leaves of a forest in depth-first, left-to-right order: a node with no \<^verbatim>\<open>content\<close>,
  or with an empty one, is a leaf. \<open>leaf_text_concat\<close> is the specification's value of
  the Document Text Extractor: the \<^verbatim>\<open>text\<close> of every leaf of type \<^verbatim>\<open>"text"\<close>, an absent
  \<^verbatim>\<open>text\<close> and any other leaf counting as the empty string.
\<close>

function leaves :: "node list \<Rightarrow> node list" where
  "leaves [] = []"
| "leaves (n # ns) =
     (case node_content n of
        None \<Rightarrow> [n]
      | Some cs \<Rightarrow> if cs = [] then [n] else leaves cs) @ leaves ns"
  by pat_completeness auto
termination
  by (relation "measure (size_list size)") (auto dest: size_node_content)

definition leaf_text :: "node \<Rightarrow> string" where
  "leaf_text n = (if node_type n = Some ''text'' then or_empty (node_text n) else [])"

definition leaf_text_concat :: "node list \<Rightarrow> string" where
  "leaf_text_concat ns = concat (map leaf_text (leaves ns))"

text \<open>
  \<open>text_nodes_are_leaves\<close>: no node of type \<^verbatim>\<open>"text"\<close> has a child, as in the document
  format. \<open>no_text_nodes\<close>: no node of type \<^verbatim>\<open>"text"\<close> at all.
\<close>

function text_nodes_are_leaves :: "node list \<Rightarrow> bool" where
  "text_nodes_are_leaves [] = True"
| "text_nodes_are_leaves (n # ns) =
     ((case node_content n of
         None \<Rightarrow> True
       | Some cs \<Rightarrow>
           if node_type n = Some ''text'' then cs = [] else text_nodes_are_leaves cs)
      \<and> text_nodes_are_leaves ns)"
  by pat_completeness auto
termination
  by (relation "measure (size_list size)") (auto dest: size_node_content)

function no_text_nodes :: "node list \<Rightarrow> bool" where
  "no_text_nodes [] = True"
| "no_text_nodes (n # ns) =
     (node_type n \<noteq> Some ''text'' \<and>
      (case node_content n of None \<Rightarrow> True | Some cs \<Rightarrow> no_text_nodes cs) \<and>
      no_text_nodes ns)"
  by pat_completeness auto
termination
  by (relation "measure (size_list size)") (auto dest: size_node_content)

text \<open>
  \<^verbatim>\<open>node.content\<close> as a list, and the mentions the two rules of \<^verbatim>\<open>processNode\<close> give for the
  node itself: the key of an \<^verbatim>\<open>inlineCard\<close> whose URL matches, then the keys in the text of
  a \<^verbatim>\<open>text\<close> node.
\<close>

definition child_nodes :: "node \<Rightarrow> node list" where
  "child_nodes n = (case node_content n of None \<Rightarrow> [] | Some cs \<Rightarrow> cs)"

definition own_mentions :: "source \<Rightarrow> string option \<Rightarrow> node \<Rightarrow> mention list" where
  "own_mentions src cid n =
     (if node_type n = Some ''inlineCard'' \<and> truthy (attrs_url n)
      then (case match_browse_key (or_empty (attrs_url n)) of
              Some k \<Rightarrow> [text_mention src cid k]
            | None \<Rightarrow> [])
      else []) @
     (if node_type n = Some ''text'' \<and> truthy (node_text n)
      then map (text_mention src cid) (match_issue_keys (or_empty (node_text n)))
      else [])"

text \<open>
  Deduplication that keeps the first occurrence: of a list of values, and of a list of
  mentions by key.
\<close>

fun first_occurrences :: "'a list \<Rightarrow> 'a list" where
  "first_occurrences [] = []"
| "first_occurrences (x # xs) = x # first_occurrences (removeAll x xs)"

fun dedup_by_key :: "mention list \<Rightarrow> mention list" where
  "dedup_by_key [] = []"
| "dedup_by_key (m # ms) = m # dedup_by_key (filter (\<lambda>x. m_key x \<noteq> m_key m) ms)"


text \<open>
  The shape of an issue key, \<^verbatim>\<open>[A-Z]+-\d+\<close>: letters, a hyphen, digits.
\<close>

definition key_shape :: "string \<Rightarrow> bool" where
  "key_shape k =
     (let us = takeWhile is_upper k in
      us \<noteq> [] \<and>
      (case dropWhile is_upper k of
         [] \<Rightarrow> False
       | c # ds \<Rightarrow> c = CHR ''-'' \<and> ds \<noteq> [] \<and> list_all is_digit ds))"

text \<open>
  What a regular-expression search for a literal \<open>p\<close> followed by \<^verbatim>\<open>[A-Z]+-\d+\<close> finds in
  \<open>s\<close>: \<open>s\<close> is \<open>pre\<close>, then \<open>p\<close>, then the key \<open>k\<close>, then \<open>r\<close>; the key is as long as
  it can be (\<open>r\<close> does not go on with a digit); and no occurrence starts further left.
\<close>

definition leftmost_key :: "string \<Rightarrow> string \<Rightarrow> string \<Rightarrow> string \<Rightarrow> string \<Rightarrow> bool" where
  "leftmost_key p s pre k r \<longleftrightarrow>
     s = pre @ p @ k @ r \<and> key_shape k \<and> (r = [] \<or> \<not> is_digit (hd r)) \<and>
     (\<forall>pre' k' r'. s = pre' @ p @ k' @ r' \<and> key_shape k' \<longrightarrow> length pre \<le> length pre')"

text \<open>
  The matches of the global search \<^verbatim>\<open>/[A-Z]+-\d+/g\<close>: none when no part of the string has
  the shape of a key; otherwise the leftmost match, then the matches of what follows it.
\<close>

inductive key_matches :: "string \<Rightarrow> string list \<Rightarrow> bool" where
  none: "(\<forall>pre k r. s = pre @ k @ r \<longrightarrow> \<not> key_shape k) \<Longrightarrow> key_matches s []"
| more: "leftmost_key [] s pre k r \<Longrightarrow> key_matches r ks \<Longrightarrow> key_matches s (k # ks)"




section \<open>Sample payloads\<close>

text \<open>
  An issue with a description, one outward link and an epic link; one comment; responses
  that succeed and that fail; and two transports built from them.
\<close>

definition sample_issue :: raw_issue where
  "sample_issue =
     \<lparr> i_id = ''10001'', i_key = ''PROJ-5'',
       i_fields = Some
         \<lparr> f_summary = Some ''Crash on save'',
           f_status = Some \<lparr>st_name = Some ''Open''\<rparr>,
           f_created = Some ''2024-01-01'', f_updated = Some ''2024-01-02'',
           f_description = Some \<lparr>d_content = Some
             [Node (Some ''paragraph'') None None
                (Some [Node (Some ''text'') (Some ''DUP-1 is a duplicate'') None None])]\<rparr>,
           f_issuelinks = Some
             [\<lparr> l_type = \<lparr>inward = None, outward = Some ''blocks''\<rparr>,
                inwardIssue = None,
                outwardIssue = Some \<lparr>r_id = ''10009'', r_key = ''XYZ-9'', r_fields = None\<rparr> \<rparr>],
           f_parent = None,
           f_customfield_10014 = Some ''EPIC-1'',
           f_subtasks = None \<rparr> \<rparr>"

definition sample_comments :: comments_data where
  "sample_comments =
     \<lparr> cd_comments =
         [\<lparr> rc_id = ''501'',
            rc_body = Some \<lparr>d_content = Some
              [Node (Some ''paragraph'') None None
                 (Some [Node (Some ''text'') (Some ''see DUP-1'') None None])]\<rparr>,
            rc_author = Some \<lparr>displayName = Some ''Ann''\<rparr>,
            rc_created = ''2024-01-03'', rc_updated = ''2024-01-03'' \<rparr>] \<rparr>"

definition response_ok :: "'a \<Rightarrow> 'a fetch_result" where
  "response_ok v =
     Responded \<lparr> resp_status = 200, resp_statusText = ''OK'',
                 resp_error_json = None, resp_json = Inr v \<rparr>"

definition response_failed :: "nat \<Rightarrow> string \<Rightarrow> 'a fetch_result" where
  "response_failed code txt =
     Responded \<lparr> resp_status = code, resp_statusText = txt,
                 resp_error_json = Some \<lparr>errorMessages = None, error_message = None, errorMessage = None\<rparr>,
                 resp_json = Inl ''Unexpected token'' \<rparr>"

definition sample_transport :: transport where
  "sample_transport =
     \<lparr> baseUrl = ''https://x.atlassian.net'',
       fetch_issue = (\<lambda>u. response_ok sample_issue),
       fetch_comments = (\<lambda>u. response_ok sample_comments),
       fetch_epic = (\<lambda>u. response_failed 500 ''Internal Server Error''),
       settles = IssueFirst \<rparr>"

definition missing_issue_transport :: "settle_order \<Rightarrow> comments_data fetch_result \<Rightarrow> transport" where
  "missing_issue_transport order cs =
     \<lparr> baseUrl = ''https://x.atlassian.net'',
       fetch_issue = (\<lambda>u. response_failed 404 ''Not Found''),
       fetch_comments = (\<lambda>u. cs),
       fetch_epic = (\<lambda>u. response_failed 404 ''Not Found''),
       settles = order \<rparr>"

section \<open>Text extraction: lemmas\<close>

lemma extract_Nil: "extractTextContent (Some []) = []"
  by simp

lemma extract_Cons: "extractTextContent (Some (n # ns)) =
   (if node_type n = Some ''text'' then or_empty (node_text n)
        else if node_content n \<noteq> None then extractTextContent (node_content n)
        else []) @ extractTextContent (Some ns)"
  by simp

lemma extract_leaf_texts: "text_nodes_are_leaves ns \<Longrightarrow> extractTextContent (Some ns) = leaf_text_concat ns"
proof (induction ns rule: leaves.induct)
  case 1
  show ?case by (simp add: leaf_text_concat_def)
next
  case (2 n ns)
  have rest: "extractTextContent (Some ns) = leaf_text_concat ns"
    using 2 by simp
  show ?case
  proof (cases "node_content n")
    case None
    then show ?thesis using rest
      by (simp add: leaf_text_concat_def leaf_text_def del: extractTextContent.simps add: extract_Nil extract_Cons)
  next
    case (Some cs)
    show ?thesis
    proof (cases "cs = []")
      case True
      then show ?thesis using rest Some
        by (simp add: leaf_text_concat_def leaf_text_def del: extractTextContent.simps add: extract_Nil extract_Cons)
    next
      case False
      have nt: "node_type n \<noteq> Some ''text''" and c: "text_nodes_are_leaves cs"
        using "2.prems" Some False by (auto split: if_splits)
      have "extractTextContent (Some cs) = leaf_text_concat cs"
        using "2.IH"(1) Some False c by simp
      then show ?thesis using rest Some False nt
        by (simp add: leaf_text_concat_def del: extractTextContent.simps add: extract_Nil extract_Cons)
    qed
  qed
qed

lemma extract_no_text: "no_text_nodes ns \<Longrightarrow> extractTextContent (Some ns) = []"
proof (induction ns rule: no_text_nodes.induct)
  case 1
  show ?case by simp
next
  case (2 n ns)
  then show ?case
    by (cases "node_content n") (simp_all del: extractTextContent.simps add: extract_Nil extract_Cons)
qed

lemma no_text_nodes_leaves: "no_text_nodes ns \<Longrightarrow> text_nodes_are_leaves ns"
  by (induction ns rule: no_text_nodes.induct) (auto split: option.splits)

section \<open>Mention extraction: lemmas\<close>

lemma fold_push: "fold (\<lambda>k acc. acc @ [f k]) ks acc = acc @ map f ks"
  by (induction ks arbitrary: acc) simp_all

lemma match_g_or_Nil: "(case match_g s of None \<Rightarrow> [] | Some ks \<Rightarrow> ks) = match_issue_keys s"
  by (simp add: match_g_def Let_def)

lemma processNode_unfold:
  "processNode src cid n ms =
     fold (\<lambda>c acc. processNode src cid c acc) (child_nodes n) (ms @ own_mentions src cid n)"
  by (subst processNode.simps)
     (simp add: Let_def own_mentions_def child_nodes_def fold_push match_g_or_Nil
           split: option.splits)

lemma fold_append_acc:
  assumes "\<And>c acc. c \<in> set cs \<Longrightarrow> f c acc = acc @ f c []"
  shows "fold f cs acc = acc @ concat (map (\<lambda>c. f c []) cs)"
  using assms
proof (induction cs arbitrary: acc)
  case Nil
  show ?case by simp
next
  case (Cons c cs)
  have step: "f c acc = acc @ f c []"
    by (rule Cons.prems) simp
  have "fold f cs (f c acc) = f c acc @ concat (map (\<lambda>c. f c []) cs)"
    by (rule Cons.IH) (rule Cons.prems, simp)
  then have "fold f (c # cs) acc = (acc @ f c []) @ concat (map (\<lambda>c. f c []) cs)"
    by (simp only: fold_simps step)
  then show ?case by simp
qed

lemma processNode_acc: "processNode src cid n ms = ms @ processNode src cid n []"
proof (induction src cid n ms rule: processNode.induct)
  case (1 src cid node mentions)
  have ih: "processNode src cid c acc = acc @ processNode src cid c []"
    if "c \<in> set (child_nodes node)" for c acc
  proof (cases "node_content node")
    case None
    then show ?thesis using that by (simp add: child_nodes_def)
  next
    case (Some cs)
    then have "c \<in> set cs" using that by (simp add: child_nodes_def)
    then show ?thesis by (rule 1 [OF refl refl Some])
  qed
  have a: "processNode src cid node mentions =
        (mentions @ own_mentions src cid node) @
        concat (map (\<lambda>c. processNode src cid c []) (child_nodes node))"
    by (subst processNode_unfold) (rule fold_append_acc, rule ih)
  have b: "processNode src cid node [] =
        ([] @ own_mentions src cid node) @
        concat (map (\<lambda>c. processNode src cid c []) (child_nodes node))"
    by (subst processNode_unfold) (rule fold_append_acc, rule ih)
  show ?case unfolding a b by simp
qed

lemma collect_concat: "collectMentions ns src cid = concat (map (\<lambda>n. processNode src cid n []) ns)"
proof -
  have "fold (\<lambda>n acc. processNode src cid n acc) ns [] =
        [] @ concat (map (\<lambda>n. processNode src cid n []) ns)"
    by (rule fold_append_acc) (rule processNode_acc)
  then show ?thesis by (simp add: collectMentions_def)
qed

lemma collect_append: "collectMentions (xs @ ys) src cid = collectMentions xs src cid @ collectMentions ys src cid"
  by (simp add: collect_concat)

lemma processNode_own_then_children:
  "processNode src cid n ms = ms @ own_mentions src cid n @ collectMentions (child_nodes n) src cid"
proof -
  have "fold (\<lambda>c acc. processNode src cid c acc) (child_nodes n) (ms @ own_mentions src cid n) =
        (ms @ own_mentions src cid n) @ concat (map (\<lambda>c. processNode src cid c []) (child_nodes n))"
    by (rule fold_append_acc) (rule processNode_acc)
  then show ?thesis by (subst processNode_unfold) (simp add: collect_concat)
qed

text \<open>A \<^verbatim>\<open>Map\<close> built from entries keeps, for a repeated key, the first place and the last value.\<close>

lemma new_Map_last_value: "map_values (new_Map [(1::nat, ''a''), (2, ''b''), (1, ''c'')]) = [''c'', ''b'']"
  by (simp add: new_Map_def map_values_def)

lemma map_set_keyed:
  "map_set (map (\<lambda>k. (k, f k)) as) k (f k) =
     map (\<lambda>k. (k, f k)) (if k \<in> set as then as else as @ [k])"
  by (induction as) auto

lemma removeAll_filter_not_in:
  "removeAll k (filter (\<lambda>x. x \<notin> set as) ks) = filter (\<lambda>x. x \<notin> set (as @ [k])) ks"
  by (induction ks) auto

lemma fold_map_set_keyed:
  "fold (\<lambda>(k, v) m. map_set m k v) (map (\<lambda>k. (k, f k)) ks) (map (\<lambda>k. (k, f k)) as) =
     map (\<lambda>k. (k, f k)) (as @ first_occurrences (filter (\<lambda>k. k \<notin> set as) ks))"
proof (induction ks arbitrary: as)
  case Nil
  show ?case by simp
next
  case (Cons k ks)
  show ?case
  proof (cases "k \<in> set as")
    case True
    then show ?thesis using Cons.IH [of as] by (simp add: map_set_keyed)
  next
    case False
    have "fold (\<lambda>(k, v) m. map_set m k v) (map (\<lambda>k. (k, f k)) (k # ks)) (map (\<lambda>k. (k, f k)) as) =
          fold (\<lambda>(k, v) m. map_set m k v) (map (\<lambda>k. (k, f k)) ks) (map (\<lambda>k. (k, f k)) (as @ [k]))"
      using False by (simp add: map_set_keyed)
    also have "\<dots> = map (\<lambda>k. (k, f k)) ((as @ [k]) @ first_occurrences (filter (\<lambda>x. x \<notin> set (as @ [k])) ks))"
      by (rule Cons.IH)
    finally show ?thesis using False by (simp add: removeAll_filter_not_in)
  qed
qed

lemma new_Map_keyed:
  "map_values (new_Map (map (\<lambda>k. (k, f k)) ks)) = map f (first_occurrences ks)"
  using fold_map_set_keyed [of f ks "[]"] by (simp add: new_Map_def map_values_def comp_def)

lemma removeAll_map_key:
  "removeAll (m_key m) (map m_key ms) = map m_key (filter (\<lambda>x. m_key x \<noteq> m_key m) ms)"
  by (induction ms) auto

lemma dedup_by_key_keys:
  "map m_key (dedup_by_key ms) = first_occurrences (map m_key ms)"
  by (induction ms rule: dedup_by_key.induct) (simp_all add: removeAll_map_key)

lemma dedup_by_key_subset: "set (dedup_by_key ms) \<subseteq> set ms"
  by (induction ms rule: dedup_by_key.induct) auto

lemma dedup_by_key_keyed:
  assumes "\<And>m. m \<in> set ms \<Longrightarrow> f (m_key m) = m"
  shows "dedup_by_key ms = map f (first_occurrences (map m_key ms))"
proof -
  have "map f (map m_key (dedup_by_key ms)) = dedup_by_key ms"
    using assms dedup_by_key_subset [of ms] by (simp add: map_idI subsetD)
  then show ?thesis by (simp only: dedup_by_key_keys)
qed

lemma m_key_text_mention: "m_key (text_mention src cid k) = k"
  by (simp add: text_mention_def)

lemma own_mentions_all:
  "list_all (\<lambda>m. text_mention src cid (m_key m) = m) (own_mentions src cid n)"
  by (simp add: own_mentions_def m_key_text_mention list.pred_map comp_def list.pred_True
           split: option.splits)

lemma own_mentions_keyed:
  "m \<in> set (own_mentions src cid n) \<Longrightarrow> text_mention src cid (m_key m) = m"
  using own_mentions_all [of src cid n] by (simp only: list_all_iff)

lemma processNode_keyed_aux:
  fixes ms :: "mention list"
  shows "\<forall>m \<in> set (processNode src cid n []). text_mention src cid (m_key m) = m"
proof (induction src cid n ms rule: processNode.induct)
  case (1 src cid node mentions)
  show ?case
  proof
    fix m
    assume "m \<in> set (processNode src cid node [])"
    then have "m \<in> set (own_mentions src cid node) \<or>
        (\<exists>c \<in> set (child_nodes node). m \<in> set (processNode src cid c []))"
      by (simp add: processNode_own_then_children [of src cid node "[]"] collect_concat)
    then show "text_mention src cid (m_key m) = m"
    proof
      assume "m \<in> set (own_mentions src cid node)"
      then show ?thesis by (rule own_mentions_keyed)
    next
      assume "\<exists>c \<in> set (child_nodes node). m \<in> set (processNode src cid c [])"
      then obtain c where c: "c \<in> set (child_nodes node)" and m: "m \<in> set (processNode src cid c [])"
        by blast
      from c obtain cs where cs: "node_content node = Some cs" and ccs: "c \<in> set cs"
        by (cases "node_content node") (simp_all add: child_nodes_def)
      have "\<forall>m \<in> set (processNode src cid c []). text_mention src cid (m_key m) = m"
        by (rule 1 [OF refl refl cs ccs])
      then show ?thesis using m by blast
    qed
  qed
qed

lemma processNode_keyed:
  "m \<in> set (processNode src cid n []) \<Longrightarrow> text_mention src cid (m_key m) = m"
  using processNode_keyed_aux [of src cid n] by blast

lemma collectMentions_keyed:
  "m \<in> set (collectMentions content src cid) \<Longrightarrow> text_mention src cid (m_key m) = m"
  by (auto simp: collect_concat dest: processNode_keyed)

lemma extract_dedup:
  "extractIssueMentions content src cid = dedup_by_key (collectMentions content src cid)"
proof -
  let ?ms = "collectMentions content src cid"
  let ?f = "text_mention src cid"
  have "map (\<lambda>m. (m_key m, m)) ?ms = map (\<lambda>k. (k, ?f k)) (map m_key ?ms)"
    by (simp add: collectMentions_keyed)
  then have "extractIssueMentions content src cid = map ?f (first_occurrences (map m_key ?ms))"
    by (simp only: extractIssueMentions_def new_Map_keyed)
  also have "\<dots> = dedup_by_key ?ms"
    by (rule dedup_by_key_keyed [symmetric]) (rule collectMentions_keyed)
  finally show ?thesis .
qed



section \<open>Issue-key patterns: lemmas\<close>

lemma not_upper_hyphen: "\<not> is_upper CHR ''-''"
  by (simp add: is_upper_def)

lemma key_shape_iff:
  "key_shape k \<longleftrightarrow>
     (\<exists>us ds. k = us @ CHR ''-'' # ds \<and> us \<noteq> [] \<and> ds \<noteq> [] \<and>
              list_all is_upper us \<and> list_all is_digit ds)"
proof
  assume a: "key_shape k"
  then obtain ds where d: "dropWhile is_upper k = CHR ''-'' # ds" "ds \<noteq> []" "list_all is_digit ds"
    and u: "takeWhile is_upper k \<noteq> []"
    by (auto simp: key_shape_def Let_def split: list.splits)
  have "k = takeWhile is_upper k @ CHR ''-'' # ds"
    using d(1) takeWhile_dropWhile_id [of is_upper k] by simp
  moreover have "list_all is_upper (takeWhile is_upper k)"
    by (simp add: list_all_iff) (meson set_takeWhileD)
  ultimately show "\<exists>us ds. k = us @ CHR ''-'' # ds \<and> us \<noteq> [] \<and> ds \<noteq> [] \<and>
              list_all is_upper us \<and> list_all is_digit ds"
    using d u by blast
next
  assume "\<exists>us ds. k = us @ CHR ''-'' # ds \<and> us \<noteq> [] \<and> ds \<noteq> [] \<and>
              list_all is_upper us \<and> list_all is_digit ds"
  then obtain us ds where k: "k = us @ CHR ''-'' # ds" and n: "us \<noteq> []" "ds \<noteq> []"
    and u: "list_all is_upper us" and d: "list_all is_digit ds" by blast
  have t: "takeWhile is_upper k = us"
    unfolding k using u not_upper_hyphen by (simp add: takeWhile_tail list_all_iff)
  have dr: "dropWhile is_upper k = CHR ''-'' # ds"
    unfolding k using u not_upper_hyphen by (simp add: dropWhile_append3 dropWhile_append2 list_all_iff)
  show "key_shape k"
    using t dr n d by (simp add: key_shape_def)
qed

lemma issue_key_at_prefix:
  assumes "key_shape k"
  shows "issue_key_at (k @ r) = Some (k @ takeWhile is_digit r, dropWhile is_digit r)"
proof -
  from assms obtain us ds where k: "k = us @ CHR ''-'' # ds" and n: "us \<noteq> []" "ds \<noteq> []"
    and u: "list_all is_upper us" and d: "list_all is_digit ds"
    unfolding key_shape_iff by blast
  have t: "takeWhile is_upper (k @ r) = us"
    unfolding k using u not_upper_hyphen by (simp add: takeWhile_tail list_all_iff)
  have dr: "dropWhile is_upper (k @ r) = CHR ''-'' # ds @ r"
    unfolding k using u not_upper_hyphen by (simp add: dropWhile_append2 list_all_iff)
  have td: "takeWhile is_digit (ds @ r) = ds @ takeWhile is_digit r"
    using d by (simp add: takeWhile_append2 list_all_iff)
  have dd: "dropWhile is_digit (ds @ r) = dropWhile is_digit r"
    using d by (simp add: dropWhile_append2 list_all_iff)
  show ?thesis
    unfolding issue_key_at_def t dr using n by (simp add: td dd k)
qed

lemma issue_key_at_greedy:
  assumes "key_shape k" and "r = [] \<or> \<not> is_digit (hd r)"
  shows "issue_key_at (k @ r) = Some (k, r)"
proof -
  have "takeWhile is_digit r = []" "dropWhile is_digit r = r"
    using assms(2) by (cases r; simp)+
  then show ?thesis using issue_key_at_prefix [OF assms(1), of r] by simp
qed

lemma issue_key_at_sound:
  assumes "issue_key_at s = Some (k, r)"
  shows "s = k @ r \<and> key_shape k \<and> (r = [] \<or> \<not> is_digit (hd r))"
proof -
  from assms obtain r2 where
    r1: "dropWhile is_upper s = CHR ''-'' # r2" and
    un: "takeWhile is_upper s \<noteq> []" and dn: "takeWhile is_digit r2 \<noteq> []" and
    k: "k = takeWhile is_upper s @ CHR ''-'' # takeWhile is_digit r2" and
    r: "r = dropWhile is_digit r2"
    by (auto simp: issue_key_at_def Let_def split: if_splits list.splits)
  have "list_all is_upper (takeWhile is_upper s)" "list_all is_digit (takeWhile is_digit r2)"
    by (simp_all add: list_all_iff) (meson set_takeWhileD)+
  then have shape: "key_shape k"
    unfolding key_shape_iff using k un dn by blast
  have "r = [] \<or> \<not> is_digit (hd r)"
    unfolding r using hd_dropWhile [of is_digit r2] by blast
  then show ?thesis using issue_key_at_splits [OF assms] shape by simp
qed

lemma issue_key_at_None:
  "issue_key_at s = None \<longleftrightarrow> (\<forall>k r. s = k @ r \<longrightarrow> \<not> key_shape k)"
proof
  assume "issue_key_at s = None"
  then show "\<forall>k r. s = k @ r \<longrightarrow> \<not> key_shape k"
    using issue_key_at_prefix by fastforce
next
  assume a: "\<forall>k r. s = k @ r \<longrightarrow> \<not> key_shape k"
  show "issue_key_at s = None"
  proof (cases "issue_key_at s")
    case None
    then show ?thesis .
  next
    case (Some kr)
    then obtain k r where "issue_key_at s = Some (k, r)" by (cases kr) simp
    then show ?thesis using issue_key_at_sound a by blast
  qed
qed

lemma leftmost_key_here:
  assumes "issue_key_at s = Some (k, r)"
  shows "leftmost_key [] s [] k r"
  using issue_key_at_sound [OF assms] by (simp add: leftmost_key_def)

lemma leftmost_key_skip:
  assumes "issue_key_at (c # cs) = None" and "leftmost_key [] cs pre k r"
  shows "leftmost_key [] (c # cs) (c # pre) k r"
proof -
  have "length (c # pre) \<le> length pre'"
    if d: "c # cs = pre' @ [] @ k' @ r'" and s: "key_shape k'" for pre' k' r'
  proof (cases pre')
    case Nil
    then show ?thesis using assms(1) d s by (simp add: issue_key_at_None)
  next
    case (Cons x xs)
    then have "cs = xs @ [] @ k' @ r'" using d by simp
    then have "length pre \<le> length xs"
      using assms(2) s unfolding leftmost_key_def by blast
    then show ?thesis using Cons by simp
  qed
  then show ?thesis using assms(2) unfolding leftmost_key_def by auto
qed

lemma no_key_skip:
  assumes "issue_key_at (c # cs) = None"
    and "\<forall>pre k r. cs = pre @ k @ r \<longrightarrow> \<not> key_shape k"
  shows "\<forall>pre k r. c # cs = pre @ k @ r \<longrightarrow> \<not> key_shape k"
proof (intro allI impI)
  fix pre k r
  assume d: "c # cs = pre @ k @ r"
  show "\<not> key_shape k"
  proof (cases pre)
    case Nil
    then show ?thesis using assms(1) d by (simp add: issue_key_at_None)
  next
    case (Cons x xs)
    then have "cs = xs @ k @ r" using d by simp
    then show ?thesis using assms(2) by blast
  qed
qed

lemma key_matches_skip:
  assumes "issue_key_at (c # cs) = None" and "key_matches cs ks"
  shows "key_matches (c # cs) ks"
  using assms(2)
proof (cases rule: key_matches.cases)
  case none
  have "\<forall>pre k r. c # cs = pre @ k @ r \<longrightarrow> \<not> key_shape k"
    by (rule no_key_skip [OF assms(1)]) (rule none(2))
  then have "key_matches (c # cs) []" by (rule key_matches.none)
  then show ?thesis unfolding none(1) .
next
  case (more pre k r ks')
  have "leftmost_key [] (c # cs) (c # pre) k r"
    by (rule leftmost_key_skip [OF assms(1) more(2)])
  then have "key_matches (c # cs) (k # ks')"
    by (rule key_matches.more) (rule more(3))
  then show ?thesis unfolding more(1) .
qed

lemma key_shape_Nil: "\<not> key_shape []"
  by (simp add: key_shape_def)

lemma key_matches_scan: "key_matches s (match_issue_keys s)"
proof (induction s rule: match_issue_keys.induct)
  case (1 s)
  show ?case
  proof (cases "s = []")
    case True
    have "\<forall>pre k r. ([]::string) = pre @ k @ r \<longrightarrow> \<not> key_shape k"
      by (simp add: key_shape_Nil)
    then have "key_matches [] []" by (rule key_matches.none)
    moreover have "match_issue_keys [] = []"
      by (subst match_issue_keys.simps) simp
    ultimately show ?thesis using True by simp
  next
    case False
    then obtain c cs where s: "s = c # cs" by (cases s) auto
    show ?thesis
    proof (cases "issue_key_at s")
      case None
      have eq: "match_issue_keys s = match_issue_keys cs"
        using None s by (subst match_issue_keys.simps) simp
      have "key_matches (tl s) (match_issue_keys (tl s))"
        by (rule "1.IH"(1) [OF False None])
      then have "key_matches cs (match_issue_keys cs)" using s by simp
      moreover have "issue_key_at (c # cs) = None" using None s by simp
      ultimately have "key_matches (c # cs) (match_issue_keys cs)"
        by (rule key_matches_skip [rotated])
      then show ?thesis using eq s by simp
    next
      case (Some kr)
      obtain k r where kr: "kr = (k, r)" by (cases kr)
      have at: "issue_key_at s = Some (k, r)" using Some kr by simp
      have eq: "match_issue_keys s = k # match_issue_keys r"
        using at False by (subst match_issue_keys.simps) simp
      have "key_matches r (match_issue_keys r)"
        by (rule "1.IH"(2) [OF False Some kr [symmetric]])
      moreover have "leftmost_key [] s [] k r"
        by (rule leftmost_key_here [OF at])
      ultimately have "key_matches s (k # match_issue_keys r)"
        by (rule key_matches.more [rotated])
      then show ?thesis using eq by simp
    qed
  qed
qed

lemma no_key_scan:
  "\<forall>pre k r. s = pre @ k @ r \<longrightarrow> \<not> key_shape k \<Longrightarrow> match_issue_keys s = []"
proof (induction s)
  case Nil
  show ?case by (subst match_issue_keys.simps) simp
next
  case (Cons c cs)
  have "\<forall>k r. c # cs = k @ r \<longrightarrow> \<not> key_shape k"
    using Cons.prems by (metis append_Nil)
  then have n: "issue_key_at (c # cs) = None" by (simp add: issue_key_at_None)
  have "\<forall>pre k r. cs = pre @ k @ r \<longrightarrow> \<not> key_shape k"
    using Cons.prems by (metis append_Cons)
  then have "match_issue_keys cs = []" by (rule Cons.IH)
  then show ?case using n by (subst match_issue_keys.simps) simp
qed

lemma leftmost_scan:
  "leftmost_key [] s pre k r \<Longrightarrow> match_issue_keys s = k # match_issue_keys r"
proof (induction pre arbitrary: s)
  case Nil
  then have s: "s = k @ r" and sh: "key_shape k" and g: "r = [] \<or> \<not> is_digit (hd r)"
    by (simp_all add: leftmost_key_def)
  have "k \<noteq> []" using sh by (auto simp: key_shape_def)
  then have "s \<noteq> []" using s by simp
  then show ?case
    using issue_key_at_greedy [OF sh g] s by (subst match_issue_keys.simps) simp
next
  case (Cons c pre)
  then have s: "s = c # (pre @ k @ r)" and sh: "key_shape k" and g: "r = [] \<or> \<not> is_digit (hd r)"
    and lm: "\<forall>pre' k' r'. s = pre' @ [] @ k' @ r' \<and> key_shape k' \<longrightarrow> length (c # pre) \<le> length pre'"
    by (simp_all add: leftmost_key_def)
  have n: "issue_key_at s = None"
  proof -
    have "\<not> key_shape k'" if "s = k' @ r'" for k' r'
      using lm that by (metis append_Nil length_Cons list.size(3) not_less_eq_eq zero_le)
    then show ?thesis by (simp add: issue_key_at_None)
  qed
  have "leftmost_key [] (pre @ k @ r) pre k r"
    unfolding leftmost_key_def
  proof (intro conjI allI impI)
    show "pre @ k @ r = pre @ [] @ k @ r" by simp
    show "key_shape k" by (rule sh)
    show "r = [] \<or> \<not> is_digit (hd r)" by (rule g)
    fix pre' k' r'
    assume "pre @ k @ r = pre' @ [] @ k' @ r' \<and> key_shape k'"
    then have "s = (c # pre') @ [] @ k' @ r' \<and> key_shape k'" using s by simp
    then have "length (c # pre) \<le> length (c # pre')" using lm by blast
    then show "length pre \<le> length pre'" by simp
  qed
  then have "match_issue_keys (pre @ k @ r) = k # match_issue_keys r" by (rule Cons.IH)
  then show ?case using n s by (subst match_issue_keys.simps) simp
qed

lemma key_matches_unique: "key_matches s ks \<Longrightarrow> match_issue_keys s = ks"
proof (induction rule: key_matches.induct)
  case (none s)
  then show ?case by (rule no_key_scan)
next
  case (more s pre k r ks)
  then show ?case using leftmost_scan by simp
qed

lemma key_matches_iff: "key_matches s ks \<longleftrightarrow> match_issue_keys s = ks"
  using key_matches_unique key_matches_scan by blast

text \<open>The attempt of \<open>match_browse_key\<close> at one position.\<close>

definition browse_here :: "string \<Rightarrow> (string \<times> string) option" where
  "browse_here s = (if take 8 s = ''/browse/'' then issue_key_at (drop 8 s) else None)"

lemma match_browse_key_Cons:
  "match_browse_key (c # cs) =
     (case browse_here (c # cs) of Some (k, r) \<Rightarrow> Some k | None \<Rightarrow> match_browse_key cs)"
  by (simp add: browse_here_def)

lemma browse_prefix: "take 8 (''/browse/'' @ s) = ''/browse/''" "drop 8 (''/browse/'' @ s) = s"
  by simp_all

lemma browse_here_None:
  "browse_here s = None \<longleftrightarrow> (\<forall>k r. s = ''/browse/'' @ k @ r \<longrightarrow> \<not> key_shape k)"
proof
  assume n: "browse_here s = None"
  show "\<forall>k r. s = ''/browse/'' @ k @ r \<longrightarrow> \<not> key_shape k"
  proof (intro allI impI)
    fix k r
    assume s: "s = ''/browse/'' @ k @ r"
    have "issue_key_at (k @ r) = None"
      using n unfolding browse_here_def s browse_prefix by simp
    then show "\<not> key_shape k" by (simp add: issue_key_at_None)
  qed
next
  assume a: "\<forall>k r. s = ''/browse/'' @ k @ r \<longrightarrow> \<not> key_shape k"
  show "browse_here s = None"
  proof (cases "take 8 s = ''/browse/''")
    case False
    then show ?thesis by (simp add: browse_here_def)
  next
    case True
    then have s: "s = ''/browse/'' @ drop 8 s"
      using append_take_drop_id [of 8 s] by simp
    have "\<not> key_shape k" if "drop 8 s = k @ r" for k r
      using a s that by metis
    then have "issue_key_at (drop 8 s) = None" by (simp add: issue_key_at_None)
    then show ?thesis by (simp add: browse_here_def)
  qed
qed

lemma browse_here_Some:
  assumes "browse_here s = Some (k, r)"
  shows "leftmost_key ''/browse/'' s [] k r"
proof -
  have t: "take 8 s = ''/browse/''" and at: "issue_key_at (drop 8 s) = Some (k, r)"
    using assms by (simp_all add: browse_here_def split: if_splits)
  have "s = ''/browse/'' @ drop 8 s"
    using t append_take_drop_id [of 8 s] by simp
  then have "s = [] @ ''/browse/'' @ k @ r"
    using issue_key_at_sound [OF at] by simp
  then show ?thesis
    using issue_key_at_sound [OF at] unfolding leftmost_key_def by simp
qed

lemma leftmost_browse_skip:
  assumes "browse_here (c # cs) = None" and "leftmost_key ''/browse/'' cs pre k r"
  shows "leftmost_key ''/browse/'' (c # cs) (c # pre) k r"
proof -
  have "length (c # pre) \<le> length pre'"
    if d: "c # cs = pre' @ ''/browse/'' @ k' @ r'" and s: "key_shape k'" for pre' k' r'
  proof (cases pre')
    case Nil
    then have "c # cs = ''/browse/'' @ k' @ r'" using d by simp
    then show ?thesis using assms(1) s unfolding browse_here_None by blast
  next
    case (Cons x xs)
    then have "cs = xs @ ''/browse/'' @ k' @ r'" using d by simp
    then have "length pre \<le> length xs"
      using assms(2) s unfolding leftmost_key_def by blast
    then show ?thesis using Cons by simp
  qed
  moreover have "c # cs = (c # pre) @ ''/browse/'' @ k @ r"
    using assms(2) unfolding leftmost_key_def by simp
  ultimately show ?thesis using assms(2) unfolding leftmost_key_def by blast
qed

lemma match_browse_key_sound:
  "match_browse_key u = Some k \<Longrightarrow> \<exists>pre r. leftmost_key ''/browse/'' u pre k r"
proof (induction u)
  case Nil
  then show ?case by simp
next
  case (Cons c cs)
  show ?case
  proof (cases "browse_here (c # cs)")
    case None
    then have "match_browse_key cs = Some k"
      using Cons.prems by (simp only: match_browse_key_Cons option.case)
    then obtain pre r where "leftmost_key ''/browse/'' cs pre k r"
      using Cons.IH by blast
    then have "leftmost_key ''/browse/'' (c # cs) (c # pre) k r"
      by (rule leftmost_browse_skip [OF None])
    then show ?thesis by blast
  next
    case (Some kr)
    obtain k' r where kr: "kr = (k', r)" by (cases kr)
    have "k' = k"
      using Cons.prems Some kr by (simp only: match_browse_key_Cons option.case prod.case) simp
    then have "browse_here (c # cs) = Some (k, r)" using Some kr by simp
    then have "leftmost_key ''/browse/'' (c # cs) [] k r" by (rule browse_here_Some)
    then show ?thesis by blast
  qed
qed

lemma match_browse_key_complete:
  "leftmost_key ''/browse/'' u pre k r \<Longrightarrow> match_browse_key u = Some k"
proof (induction pre arbitrary: u)
  case Nil
  then have u: "u = ''/browse/'' @ k @ r" and sh: "key_shape k"
    and g: "r = [] \<or> \<not> is_digit (hd r)"
    by (simp_all add: leftmost_key_def)
  have "browse_here u = Some (k, r)"
    unfolding browse_here_def u browse_prefix using issue_key_at_greedy [OF sh g] by simp
  moreover obtain c cs where "u = c # cs" using u by simp
  ultimately show ?case by (simp only: match_browse_key_Cons option.case prod.case)
next
  case (Cons c pre)
  then have u: "u = c # (pre @ ''/browse/'' @ k @ r)" and sh: "key_shape k"
    and g: "r = [] \<or> \<not> is_digit (hd r)"
    and lm: "\<forall>pre' k' r'. u = pre' @ ''/browse/'' @ k' @ r' \<and> key_shape k' \<longrightarrow>
               length (c # pre) \<le> length pre'"
    by (simp_all add: leftmost_key_def)
  have n: "browse_here u = None"
    unfolding browse_here_None
  proof (intro allI impI)
    fix k' r'
    assume "u = ''/browse/'' @ k' @ r'"
    then have d: "u = [] @ ''/browse/'' @ k' @ r'" by simp
    show "\<not> key_shape k'"
    proof
      assume "key_shape k'"
      then have "length (c # pre) \<le> length ([]::string)" using lm d by blast
      then show False by simp
    qed
  qed
  have "leftmost_key ''/browse/'' (pre @ ''/browse/'' @ k @ r) pre k r"
    unfolding leftmost_key_def
  proof (intro conjI allI impI)
    show "pre @ ''/browse/'' @ k @ r = pre @ ''/browse/'' @ k @ r" by simp
    show "key_shape k" by (rule sh)
    show "r = [] \<or> \<not> is_digit (hd r)" by (rule g)
    fix pre' k' r'
    assume "pre @ ''/browse/'' @ k @ r = pre' @ ''/browse/'' @ k' @ r' \<and> key_shape k'"
    then have "u = (c # pre') @ ''/browse/'' @ k' @ r' \<and> key_shape k'" using u by simp
    then have "length (c # pre) \<le> length (c # pre')" using lm by blast
    then show "length pre \<le> length pre'" by simp
  qed
  then have "match_browse_key (pre @ ''/browse/'' @ k @ r) = Some k" by (rule Cons.IH)
  then show ?case using n unfolding u by (simp only: match_browse_key_Cons option.case)
qed

lemma match_browse_key_iff:
  "match_browse_key u = Some k \<longleftrightarrow> (\<exists>pre r. leftmost_key ''/browse/'' u pre k r)"
  using match_browse_key_sound match_browse_key_complete by blast

lemma leftmost_key_nonempty: "leftmost_key ''/browse/'' u pre k r \<Longrightarrow> u \<noteq> []"
  by (simp add: leftmost_key_def)

section \<open>Issue Normalizer and client: lemmas\<close>

text \<open>
  The relationship of a link mention is decided by the labels alone; a link that has the
  outward label only gets that label.
\<close>

lemma link_mention_relationship:
  "link_mention link = Inr m \<Longrightarrow>
     m_relationship m =
       (if truthy (inward (l_type link)) then inward (l_type link) else outward (l_type link))"
  by (cases "inwardIssue link"; cases "outwardIssue link")
     (auto simp: link_mention_def Let_def)

lemma link_mention_outward_label_only:
  "link_mention
     \<lparr> l_type = \<lparr>inward = None, outward = Some ''blocks''\<rparr>,
       inwardIssue = None,
       outwardIssue = Some \<lparr>r_id = i, r_key = ''XYZ-9'', r_fields = None\<rparr> \<rparr>
   = Inr \<lparr> m_key = ''XYZ-9'', m_type = Link, m_source = Description, m_commentId = None,
           m_summary = None, m_relationship = Some ''blocks'' \<rparr>"
  by (simp add: link_mention_def truthy_def ref_summary_def)

lemma map_throwing_Nil_iff: "map_throwing f xs = Inr [] \<longleftrightarrow> xs = []"
  by (cases xs) (auto split: sum.splits)






lemma getIssue_success:
  assumes "fetchJson (fetch_issue t (issue_url t issueId)) = Inr issueData"
    and "fetchJson (fetch_comments t (comments_url t issueId)) = Inr commentsData"
    and "cleanIssue issueData = Inr issue"
  shows "getIssueWithComments t issueId =
           Inr (with_epic_summary t (with_comments issue commentsData))"
  using assms by (simp add: getIssueWithComments_def promise_all_def)


lemma cleanIssue_epicLink:
  "cleanIssue issueData = Inr issue \<Longrightarrow> epicLink issue = Some epic \<Longrightarrow> s_summary epic = None"
  by (auto simp: cleanIssue_def Let_def split: sum.splits if_splits)

lemma with_comments_epicLink: "epicLink (with_comments issue cd) = epicLink issue"
  by (simp add: with_comments_def Let_def)

lemma str_includes_mid: "str_includes (a @ b @ c) b"
proof (induction a)
  case Nil
  have t: "take (length b) (b @ c) = b" by simp
  show ?case
  proof (cases "b @ c")
    case Nil
    then show ?thesis by simp
  next
    case (Cons x xs)
    have "str_includes (x # xs) b" using t unfolding Cons by simp
    then show ?thesis using Cons by simp
  qed
next
  case (Cons x a)
  then show ?case by simp
qed

lemma show_nat_404: "show_nat 404 = ''404''"
  by code_simp

lemma handleFetchError_404:
  assumes "resp_status r = 404"
  shows "str_includes (message (handleFetchError r)) ''(Status: 404)''"
proof -
  have nok: "\<not> resp_ok r" using assms by (simp add: resp_ok_def)
  obtain em where "message (handleFetchError r) =
      (''JIRA API Error'' @ em @ '' '') @ ''(Status: 404)'' @ []"
    using nok assms by (simp add: handleFetchError_def Let_def show_nat_404)
  then show ?thesis using str_includes_mid [of "''JIRA API Error'' @ _ @ '' ''" "''(Status: 404)''" "[]"]
    by (metis str_includes_mid)
qed

lemma fetchJson_404:
  assumes "x = Responded r" "resp_status r = 404"
  shows "\<exists>e. fetchJson x = Inl e \<and> str_includes (message e) ''(Status: 404)''"
  using assms handleFetchError_404 [OF assms(2)]
  by (simp add: fetchJson_def resp_ok_def)

section \<open>Claims about the Document Text Extractor\<close>

text \<open>
  Claim C7. For all sibling node sequences \<open>A\<close> and \<open>B\<close>, extracting text from the
  concatenated sequence equals the concatenation of the text extracted from \<open>A\<close> and the
  text extracted from \<open>B\<close>.
\<close>

theorem extractTextContent_siblings:
  "extractTextContent (Some (A @ B)) = extractTextContent (Some A) @ extractTextContent (Some B)"
  by simp

theorem extractTextContent_siblings_witness:
  "extractTextContent
     (Some ([Node (Some ''paragraph'') None None (Some [Node (Some ''text'') (Some ''ab'') None None])] @
            [Node (Some ''text'') (Some ''cd'') None None])) =
   extractTextContent
     (Some [Node (Some ''paragraph'') None None (Some [Node (Some ''text'') (Some ''ab'') None None])]) @
   extractTextContent (Some [Node (Some ''text'') (Some ''cd'') None None])"
  by (rule extractTextContent_siblings)

text \<open>
  Claim C10. For every string \<open>t\<close>, the document \<^verbatim>\<open>createAdfFromBody\<close> builds from \<open>t\<close> gives
  \<open>t\<close> back under the Document Text Extractor. (For the empty string the text node's
  \<^verbatim>\<open>text\<close> is falsy and \<^verbatim>\<open>node.text || ""\<close> is the empty string again.)
\<close>

theorem createAdfFromBody_roundtrip:
  "extractTextContent (Some (doc_content (createAdfFromBody t))) = t"
  by (simp add: createAdfFromBody_def or_empty_def)

theorem createAdfFromBody_roundtrip_witness:
  "extractTextContent (Some (doc_content (createAdfFromBody ''Fixed in PROJ-7''))) = ''Fixed in PROJ-7''"
  by (rule createAdfFromBody_roundtrip)

text \<open>
  Claim C5, as stated: for every input the extractor returns the concatenation, in
  depth-first left-to-right order, of the text of every leaf of type \<^verbatim>\<open>"text"\<close>. It fails
  on a node of type \<^verbatim>\<open>"text"\<close> that has children: the code returns that node's own text
  and never visits the children, while the leaves below it are what the claim counts.
\<close>

theorem text_node_with_children_counterexample:
  "extractTextContent
     (Some [Node (Some ''text'') (Some ''a'') None (Some [Node (Some ''text'') (Some ''b'') None None])]) = ''a''
   \<and> leaf_text_concat
     [Node (Some ''text'') (Some ''a'') None (Some [Node (Some ''text'') (Some ''b'') None None])] = ''b''"
  by (simp add: leaf_text_concat_def leaf_text_def or_empty_def)

text \<open>
  Claim C5, amended: for every input in which no node of type \<^verbatim>\<open>"text"\<close> has children,
  the Document Text Extractor returns the concatenation, in depth-first left-to-right
  order and with no separator, of the text of every leaf of type \<^verbatim>\<open>"text"\<close>, other
  leaves and an absent text counting as the empty string; a missing or non-array input
  gives the empty string; and a forest with no node of type \<^verbatim>\<open>"text"\<close> gives the empty
  string.
\<close>

theorem extractTextContent_leaf_texts:
  "(text_nodes_are_leaves content \<longrightarrow> extractTextContent (Some content) = leaf_text_concat content)
   \<and> extractTextContent None = []
   \<and> (no_text_nodes content \<longrightarrow> extractTextContent (Some content) = [])"
  using extract_leaf_texts [of content] extract_no_text [of content] by simp

theorem extractTextContent_leaf_texts_witness:
  "text_nodes_are_leaves
     [Node (Some ''paragraph'') None None
        (Some [Node (Some ''text'') (Some ''Hello '') None None,
               Node (Some ''inlineCard'') None (Some \<lparr>url = Some ''https://x/browse/AB-1''\<rparr>) None,
               Node (Some ''text'') None None None,
               Node (Some ''text'') (Some ''world'') None (Some [])]),
      Node (Some ''rule'') None None None]
   \<and> extractTextContent (Some
     [Node (Some ''paragraph'') None None
        (Some [Node (Some ''text'') (Some ''Hello '') None None,
               Node (Some ''inlineCard'') None (Some \<lparr>url = Some ''https://x/browse/AB-1''\<rparr>) None,
               Node (Some ''text'') None None None,
               Node (Some ''text'') (Some ''world'') None (Some [])]),
      Node (Some ''rule'') None None None]) = ''Hello world''
   \<and> leaf_text_concat
     [Node (Some ''paragraph'') None None
        (Some [Node (Some ''text'') (Some ''Hello '') None None,
               Node (Some ''inlineCard'') None (Some \<lparr>url = Some ''https://x/browse/AB-1''\<rparr>) None,
               Node (Some ''text'') None None None,
               Node (Some ''text'') (Some ''world'') None (Some [])]),
      Node (Some ''rule'') None None None] = ''Hello world''
   \<and> no_text_nodes [Node (Some ''paragraph'') None None (Some [Node (Some ''hardBreak'') None None None])]
   \<and> extractTextContent (Some
        [Node (Some ''paragraph'') None None (Some [Node (Some ''hardBreak'') None None None])]) = []"
proof -
  let ?c = "[Node (Some ''paragraph'') None None
        (Some [Node (Some ''text'') (Some ''Hello '') None None,
               Node (Some ''inlineCard'') None (Some \<lparr>url = Some ''https://x/browse/AB-1''\<rparr>) None,
               Node (Some ''text'') None None None,
               Node (Some ''text'') (Some ''world'') None (Some [])]),
      Node (Some ''rule'') None None None]"
  let ?d = "[Node (Some ''paragraph'') None None (Some [Node (Some ''hardBreak'') None None None])]"
  have h1: "text_nodes_are_leaves ?c" by simp
  have h2: "no_text_nodes ?d" by simp
  have v: "leaf_text_concat ?c = ''Hello world''"
    by (simp add: leaf_text_concat_def leaf_text_def or_empty_def)
  from extractTextContent_leaf_texts [of ?c] h1
  have e1: "extractTextContent (Some ?c) = leaf_text_concat ?c" by blast
  from extractTextContent_leaf_texts [of ?d] h2
  have e2: "extractTextContent (Some ?d) = []" by blast
  show ?thesis using h1 h2 v e1 e2 by (simp only: simp_thms)
qed

section \<open>Claims about the traversal\<close>

text \<open>
  Claim C4, as stated: a node that satisfies its extractor's own rule and has children
  contributes its own part and then its children's, in both extractors. The Document
  Text Extractor does not do so: a node of type \<^verbatim>\<open>"text"\<close> returns its own text and its
  children are skipped.
\<close>

theorem text_extractor_skips_children_counterexample:
  "extractTextContent
     (Some [Node (Some ''text'') (Some ''a'') None (Some [Node (Some ''text'') (Some ''b'') None None])])
   \<noteq> or_empty (Some ''a'') @ extractTextContent (Some [Node (Some ''text'') (Some ''b'') None None])"
  by (simp add: or_empty_def)

text \<open>
  Claim C4, amended: for every node with a \<^verbatim>\<open>content\<close> array, the Mention Extractor
  appends the node's own mentions (the \<^verbatim>\<open>inlineCard\<close> rule, then the \<^verbatim>\<open>text\<close> rule) and then
  those of its children, in order, whatever the node's type. The Document Text Extractor
  gives, for a node of type \<^verbatim>\<open>"text"\<close>, the node's own text only, and for a node of any
  other type the text of its children.
\<close>

theorem self_then_children:
  assumes "node_content n = Some cs"
  shows "processNode src cid n ms = ms @ own_mentions src cid n @ collectMentions cs src cid
    \<and> collectMentions [n] src cid = own_mentions src cid n @ collectMentions cs src cid
    \<and> extractTextContent (Some [n]) =
        (if node_type n = Some ''text'' then or_empty (node_text n)
         else extractTextContent (Some cs))"
proof -
  have c: "child_nodes n = cs" using assms by (simp add: child_nodes_def)
  have a: "processNode src cid n ms = ms @ own_mentions src cid n @ collectMentions cs src cid"
    using processNode_own_then_children [of src cid n ms] c by simp
  have b: "collectMentions [n] src cid = own_mentions src cid n @ collectMentions cs src cid"
    using processNode_own_then_children [of src cid n "[]"] c
    by (simp add: collect_concat)
  have t: "extractTextContent (Some [n]) =
        (if node_type n = Some ''text'' then or_empty (node_text n)
         else extractTextContent (Some cs))"
    using assms by (simp del: extractTextContent.simps add: extract_Nil extract_Cons)
  show ?thesis using a b t by (simp only: simp_thms)
qed

theorem self_then_children_witness:
  "collectMentions
     [Node (Some ''text'') (Some ''see AB-1'') None
        (Some [Node (Some ''text'') (Some ''and CD-2'') None None])] Description None =
     [text_mention Description None ''AB-1'', text_mention Description None ''CD-2'']
   \<and> extractTextContent (Some
     [Node (Some ''text'') (Some ''see AB-1'') None
        (Some [Node (Some ''text'') (Some ''and CD-2'') None None])]) = ''see AB-1''
   \<and> extractTextContent (Some
     [Node (Some ''paragraph'') (Some ''see AB-1'') None
        (Some [Node (Some ''text'') (Some ''and CD-2'') None None])]) = ''and CD-2''"
proof -
  let ?c = "Node (Some ''text'') (Some ''and CD-2'') None None"
  let ?n = "Node (Some ''text'') (Some ''see AB-1'') None (Some [?c])"
  let ?p = "Node (Some ''paragraph'') (Some ''see AB-1'') None (Some [?c])"
  have hn: "node_content ?n = Some [?c]" by simp
  have hp: "node_content ?p = Some [?c]" by simp
  have own: "own_mentions Description None ?n = [text_mention Description None ''AB-1'']"
    by code_simp
  have kids: "collectMentions [?c] Description None = [text_mention Description None ''CD-2'']"
    by code_simp
  have kt: "extractTextContent (Some [?c]) = ''and CD-2''"
    by (simp add: or_empty_def)
  from self_then_children [OF hn, of Description None "[]"]
  have 1: "collectMentions [?n] Description None =
           own_mentions Description None ?n @ collectMentions [?c] Description None"
    and 2: "extractTextContent (Some [?n]) = ''see AB-1''"
    by (simp_all add: or_empty_def)
  from self_then_children [OF hp, of Description None "[]"]
  have 3: "extractTextContent (Some [?p]) = extractTextContent (Some [?c])"
    by simp
  show ?thesis using 1 2 3 own kids kt by (simp only: append_Cons append_Nil simp_thms)
qed

section \<open>Claims about the Mention Extractor\<close>

text \<open>
  Claim C1. The output of the Mention Extractor is the list of mentions collected in
  traversal order, deduplicated by key: the first mention of each key is kept, with its
  metadata, later ones are dropped, and the keys are in the order of their first
  occurrence. In particular, when the collected keys are PROJ-1, PROJ-2, PROJ-1, the
  output is the first two collected mentions.

  (The \<^verbatim>\<open>Map\<close> the code builds keeps the first place of a key and the last value set for
  it. Every mention collected by one call has the same type, source and comment id, so
  the last mention of a key and the first are the same value.)
\<close>

theorem extractIssueMentions_first_wins:
  "extractIssueMentions content src cid = dedup_by_key (collectMentions content src cid)
   \<and> map m_key (extractIssueMentions content src cid) =
       first_occurrences (map m_key (collectMentions content src cid))
   \<and> (map m_key (collectMentions content src cid) = [''PROJ-1'', ''PROJ-2'', ''PROJ-1'']
        \<longrightarrow> extractIssueMentions content src cid = take 2 (collectMentions content src cid)
          \<and> map m_key (extractIssueMentions content src cid) = [''PROJ-1'', ''PROJ-2''])"
proof -
  let ?ms = "collectMentions content src cid"
  have a: "extractIssueMentions content src cid = dedup_by_key ?ms"
    by (rule extract_dedup)
  have b: "map m_key (extractIssueMentions content src cid) = first_occurrences (map m_key ?ms)"
    by (simp only: a dedup_by_key_keys)
  have c: "dedup_by_key ?ms = take 2 ?ms \<and> map m_key (dedup_by_key ?ms) = [''PROJ-1'', ''PROJ-2'']"
    if k: "map m_key ?ms = [''PROJ-1'', ''PROJ-2'', ''PROJ-1'']"
  proof -
    from k obtain x y z where xyz: "?ms = [x, y, z]"
      and kx: "m_key x = ''PROJ-1''" and ky: "m_key y = ''PROJ-2''" and kz: "m_key z = ''PROJ-1''"
      by (auto simp: map_eq_Cons_conv)
    show ?thesis unfolding xyz using kx ky kz by simp
  qed
  from a c have d: "map m_key ?ms = [''PROJ-1'', ''PROJ-2'', ''PROJ-1''] \<longrightarrow>
      extractIssueMentions content src cid = take 2 ?ms
      \<and> map m_key (extractIssueMentions content src cid) = [''PROJ-1'', ''PROJ-2'']"
    by (simp only: simp_thms) blast
  show ?thesis using a b d by (simp only: simp_thms)
qed

theorem extractIssueMentions_first_wins_witness:
  "map m_key (collectMentions
      [Node (Some ''paragraph'') None None
         (Some [Node (Some ''text'') (Some ''PROJ-1 blocks '') None None,
                Node (Some ''inlineCard'') None (Some \<lparr>url = Some ''https://x.atlassian.net/browse/PROJ-2''\<rparr>) None,
                Node (Some ''text'') (Some '' (see PROJ-1)'') None None])] Comment (Some ''10001''))
     = [''PROJ-1'', ''PROJ-2'', ''PROJ-1'']
   \<and> extractIssueMentions
      [Node (Some ''paragraph'') None None
         (Some [Node (Some ''text'') (Some ''PROJ-1 blocks '') None None,
                Node (Some ''inlineCard'') None (Some \<lparr>url = Some ''https://x.atlassian.net/browse/PROJ-2''\<rparr>) None,
                Node (Some ''text'') (Some '' (see PROJ-1)'') None None])] Comment (Some ''10001'')
     = [text_mention Comment (Some ''10001'') ''PROJ-1'', text_mention Comment (Some ''10001'') ''PROJ-2'']"
proof -
  let ?c = "[Node (Some ''paragraph'') None None
         (Some [Node (Some ''text'') (Some ''PROJ-1 blocks '') None None,
                Node (Some ''inlineCard'') None (Some \<lparr>url = Some ''https://x.atlassian.net/browse/PROJ-2''\<rparr>) None,
                Node (Some ''text'') (Some '' (see PROJ-1)'') None None])]"
  have ms: "collectMentions ?c Comment (Some ''10001'') =
      [text_mention Comment (Some ''10001'') ''PROJ-1'',
       text_mention Comment (Some ''10001'') ''PROJ-2'',
       text_mention Comment (Some ''10001'') ''PROJ-1'']"
    by code_simp
  have k: "map m_key (collectMentions ?c Comment (Some ''10001'')) = [''PROJ-1'', ''PROJ-2'', ''PROJ-1'']"
    unfolding ms by (simp add: m_key_text_mention)
  from extractIssueMentions_first_wins [of ?c Comment "Some ''10001''"] k
  have "extractIssueMentions ?c Comment (Some ''10001'') = take 2 (collectMentions ?c Comment (Some ''10001''))"
    by blast
  then have "extractIssueMentions ?c Comment (Some ''10001'') =
      [text_mention Comment (Some ''10001'') ''PROJ-1'', text_mention Comment (Some ''10001'') ''PROJ-2'']"
    unfolding ms by simp
  then show ?thesis using k by (simp only: simp_thms)
qed


text \<open>
  Claim C6. During the traversal, for a node of type \<^verbatim>\<open>"inlineCard"\<close> whose \<^verbatim>\<open>attrs.url\<close>
  matches \<^verbatim>\<open>/browse/K\<close>, \<open>K\<close> of the shape \<^verbatim>\<open>[A-Z]+-\d+\<close>, the Mention Extractor emits the
  mention with key \<open>K\<close>, type \<^verbatim>\<open>"mention"\<close> and the given source and comment id; and for a
  node of type \<^verbatim>\<open>"text"\<close> it emits one such mention per non-overlapping match of
  \<^verbatim>\<open>[A-Z]+-\d+\<close> in its text, from left to right. The match of a URL is what the search
  finds: the leftmost occurrence, the key as long as possible. What the node emits comes
  after the mentions collected before it and before those of its children. Each emitted
  mention is written out: its key is the match, its type is \<^verbatim>\<open>"mention"\<close>, its source and
  comment id are those of the call, and it has no summary and no relationship.
\<close>

theorem processNode_emits_matches:
  "(node_type n = Some ''inlineCard'' \<and> attrs_url n = Some u \<and> leftmost_key ''/browse/'' u pre K r
      \<longrightarrow> processNode src cid n ms =
            ms @ [\<lparr> m_key = K, m_type = Mention, m_source = src, m_commentId = cid,
                    m_summary = None, m_relationship = None \<rparr>]
               @ collectMentions (child_nodes n) src cid)
   \<and> (node_type n = Some ''text'' \<and> node_text n = Some t \<and> key_matches t ks
      \<longrightarrow> processNode src cid n ms =
            ms @ map (\<lambda>k. \<lparr> m_key = k, m_type = Mention, m_source = src, m_commentId = cid,
                            m_summary = None, m_relationship = None \<rparr>) ks
               @ collectMentions (child_nodes n) src cid)"
proof (intro conjI impI)
  assume a: "node_type n = Some ''inlineCard'' \<and> attrs_url n = Some u \<and>
             leftmost_key ''/browse/'' u pre K r"
  then have m: "match_browse_key u = Some K" using match_browse_key_complete by blast
  have "u \<noteq> []" using a leftmost_key_nonempty by blast
  then have "own_mentions src cid n = [text_mention src cid K]"
    using a m by (simp add: own_mentions_def truthy_def or_empty_def)
  then have "processNode src cid n ms =
            ms @ [text_mention src cid K] @ collectMentions (child_nodes n) src cid"
    by (simp add: processNode_own_then_children)
  then show "processNode src cid n ms =
            ms @ [\<lparr> m_key = K, m_type = Mention, m_source = src, m_commentId = cid,
                    m_summary = None, m_relationship = None \<rparr>]
               @ collectMentions (child_nodes n) src cid"
    by (simp only: text_mention_def)
next
  assume a: "node_type n = Some ''text'' \<and> node_text n = Some t \<and> key_matches t ks"
  then have m: "match_issue_keys t = ks" using key_matches_unique by blast
  have e: "match_issue_keys [] = []" by (subst match_issue_keys.simps) simp
  have "own_mentions src cid n = map (text_mention src cid) ks"
    using a m e by (cases "t = []") (auto simp: own_mentions_def truthy_def or_empty_def)
  then have "processNode src cid n ms =
            ms @ map (text_mention src cid) ks @ collectMentions (child_nodes n) src cid"
    by (simp add: processNode_own_then_children)
  moreover have "text_mention src cid =
      (\<lambda>k. \<lparr> m_key = k, m_type = Mention, m_source = src, m_commentId = cid,
               m_summary = None, m_relationship = None \<rparr>)"
    by (rule ext) (simp only: text_mention_def)
  ultimately show "processNode src cid n ms =
            ms @ map (\<lambda>k. \<lparr> m_key = k, m_type = Mention, m_source = src, m_commentId = cid,
                            m_summary = None, m_relationship = None \<rparr>) ks
               @ collectMentions (child_nodes n) src cid"
    by simp
qed

theorem processNode_emits_matches_witness:
  "(\<exists>pre r. leftmost_key ''/browse/'' ''https://x.atlassian.net/browse/ABC-123'' pre ''ABC-123'' r)
   \<and> processNode Description None
       (Node (Some ''inlineCard'') None
          (Some \<lparr>url = Some ''https://x.atlassian.net/browse/ABC-123''\<rparr>) None) [] =
       [\<lparr> m_key = ''ABC-123'', m_type = Mention, m_source = Description, m_commentId = None,
           m_summary = None, m_relationship = None \<rparr>]
   \<and> extractIssueMentions
       [Node (Some ''inlineCard'') None
          (Some \<lparr>url = Some ''https://x.atlassian.net/browse/ABC-123''\<rparr>) None]
       Description None =
       [\<lparr> m_key = ''ABC-123'', m_type = Mention, m_source = Description, m_commentId = None,
           m_summary = None, m_relationship = None \<rparr>]
   \<and> key_matches ''See PROJ-10 and PROJ-11, blocked by PROJ-10''
       [''PROJ-10'', ''PROJ-11'', ''PROJ-10'']
   \<and> processNode Comment (Some ''7'')
       (Node (Some ''text'') (Some ''See PROJ-10 and PROJ-11, blocked by PROJ-10'') None None) [] =
       [\<lparr> m_key = ''PROJ-10'', m_type = Mention, m_source = Comment, m_commentId = Some ''7'',
           m_summary = None, m_relationship = None \<rparr>,
        \<lparr> m_key = ''PROJ-11'', m_type = Mention, m_source = Comment, m_commentId = Some ''7'',
           m_summary = None, m_relationship = None \<rparr>,
        \<lparr> m_key = ''PROJ-10'', m_type = Mention, m_source = Comment, m_commentId = Some ''7'',
           m_summary = None, m_relationship = None \<rparr>]"
proof -
  let ?u = "''https://x.atlassian.net/browse/ABC-123''"
  let ?card = "Node (Some ''inlineCard'') None (Some \<lparr>url = Some ?u\<rparr>) None"
  let ?t = "''See PROJ-10 and PROJ-11, blocked by PROJ-10''"
  let ?txt = "Node (Some ''text'') (Some ?t) None None"
  let ?abc = "\<lparr> m_key = ''ABC-123'', m_type = Mention, m_source = Description,
                 m_commentId = None, m_summary = None, m_relationship = None \<rparr>"
  have "match_browse_key ?u = Some ''ABC-123''" by code_simp
  then obtain pre r where l: "leftmost_key ''/browse/'' ?u pre ''ABC-123'' r"
    using match_browse_key_sound by blast
  have c: "node_type ?card = Some ''inlineCard'' \<and> attrs_url ?card = Some ?u"
    by (simp add: attrs_url_def)
  have kids: "collectMentions (child_nodes ?card) Description None = []"
    "collectMentions (child_nodes ?txt) Comment (Some ''7'') = []"
    by (simp_all add: child_nodes_def collectMentions_def)
  from processNode_emits_matches
         [where n = ?card and u = ?u and pre = pre and K = "''ABC-123''" and r = r
            and src = Description and cid = None and ms = "[]", THEN conjunct1] c l
  have p1: "processNode Description None ?card [] = [?abc]"
    by (simp only: kids append_Nil append_Nil2 simp_thms)
  then have "collectMentions [?card] Description None = [?abc]"
    by (simp add: collectMentions_def)
  then have p2: "extractIssueMentions [?card] Description None = [?abc]"
    by (simp add: extractIssueMentions_def new_Map_def map_values_def)
  have "match_issue_keys ?t = [''PROJ-10'', ''PROJ-11'', ''PROJ-10'']" by code_simp
  then have k: "key_matches ?t [''PROJ-10'', ''PROJ-11'', ''PROJ-10'']"
    using key_matches_scan [of ?t] by simp
  have x: "node_type ?txt = Some ''text'' \<and> node_text ?txt = Some ?t" by simp
  from processNode_emits_matches
         [where n = ?txt and t = ?t and ks = "[''PROJ-10'', ''PROJ-11'', ''PROJ-10'']"
            and src = Comment and cid = "Some ''7''" and ms = "[]", THEN conjunct2] x k
  have p3: "processNode Comment (Some ''7'') ?txt [] =
       [\<lparr> m_key = ''PROJ-10'', m_type = Mention, m_source = Comment, m_commentId = Some ''7'',
           m_summary = None, m_relationship = None \<rparr>,
        \<lparr> m_key = ''PROJ-11'', m_type = Mention, m_source = Comment, m_commentId = Some ''7'',
           m_summary = None, m_relationship = None \<rparr>,
        \<lparr> m_key = ''PROJ-10'', m_type = Mention, m_source = Comment, m_commentId = Some ''7'',
           m_summary = None, m_relationship = None \<rparr>]"
    by (simp only: kids append_Nil append_Nil2 simp_thms list.map)
  show ?thesis using l p1 p2 k p3 by blast
qed

section \<open>Claims about the Issue Normalizer\<close>

text \<open>
  Claim C2 says that the relationship of a link mention is the inward label of the link
  type when \<^verbatim>\<open>inwardIssue\<close> is present and the outward label otherwise. The code takes
  \<^verbatim>\<open>link.type.inward || link.type.outward\<close>, which looks at the labels and not at the side
  that is populated. Jira sends both labels with every link, so an outward link
  (\<^verbatim>\<open>outwardIssue\<close> XYZ-9, labels "is blocked by" and "blocks") comes out with the inward
  label "is blocked by", where the claim says "blocks". The claim's own example, where
  the type has the outward label only, comes out as the claim says.
\<close>

theorem outward_link_gets_inward_label:
  "map_sum id relatedIssues (cleanIssue
     \<lparr> i_id = ''10001'', i_key = ''PROJ-5'',
       i_fields = Some
         \<lparr> f_summary = None, f_status = None, f_created = None, f_updated = None,
           f_description = None,
           f_issuelinks = Some
             [\<lparr> l_type = \<lparr>inward = Some ''is blocked by'', outward = Some ''blocks''\<rparr>,
                inwardIssue = None,
                outwardIssue = Some \<lparr>r_id = ''10009'', r_key = ''XYZ-9'', r_fields = None\<rparr> \<rparr>],
           f_parent = None, f_customfield_10014 = None, f_subtasks = None \<rparr> \<rparr>)
   = Inr [\<lparr> m_key = ''XYZ-9'', m_type = Link, m_source = Description, m_commentId = None,
            m_summary = None, m_relationship = Some ''is blocked by'' \<rparr>]"
  by code_simp



section \<open>Claims about the error handling\<close>

text \<open>
  Claim C8, as stated: whenever the request for the issue fails with status 404,
  \<^verbatim>\<open>getIssueWithComments\<close> raises an error whose message includes the requested
  identifier. The two requests run in parallel and the \<^verbatim>\<open>catch\<close> sees the rejection that
  comes first. When the request for the comments fails first, with status 500, that
  error is rethrown as it is, and its message does not name the issue.
\<close>

theorem comment_failure_first_counterexample:
  "fetchJson (fetch_issue (missing_issue_transport CommentsFirst (response_failed 500 ''Internal Server Error''))
       (issue_url (missing_issue_transport CommentsFirst (response_failed 500 ''Internal Server Error'')) ''ABC-1''))
     = Inl (Error ''JIRA API Error: Not Found (Status: 404)'')
   \<and> getIssueWithComments
       (missing_issue_transport CommentsFirst (response_failed 500 ''Internal Server Error'')) ''ABC-1''
     = Inl (Error ''JIRA API Error: Internal Server Error (Status: 500)'')
   \<and> \<not> str_includes (message (Error ''JIRA API Error: Internal Server Error (Status: 500)'')) ''ABC-1''"
  by code_simp

text \<open>
  Claim C8, amended: whenever the request for the issue fails with status 404,
  \<^verbatim>\<open>getIssueWithComments\<close> raises an error and returns no issue; and when the request for
  the comments does not fail first with another failure (the issue's rejection comes
  first, or the comments arrive, or their request fails with status 404 too), the error is
  \<^verbatim>\<open>Issue not found: \<close> followed by the requested identifier, which the message includes.
\<close>

theorem not_found_names_identifier:
  assumes "fetch_issue t (issue_url t issueId) = Responded r"
    and "resp_status r = 404"
  shows "isl (getIssueWithComments t issueId)
    \<and> ((settles t = IssueFirst
         \<or> \<not> isl (fetchJson (fetch_comments t (comments_url t issueId)))
         \<or> (\<exists>r'. fetch_comments t (comments_url t issueId) = Responded r' \<and> resp_status r' = 404))
        \<longrightarrow> getIssueWithComments t issueId = Inl (Error (''Issue not found: '' @ issueId)))
    \<and> str_includes (message (Error (''Issue not found: '' @ issueId))) issueId"
proof -
  obtain e1 where e1: "fetchJson (fetch_issue t (issue_url t issueId)) = Inl e1"
    and m1: "str_includes (message e1) ''(Status: 404)''"
    using fetchJson_404 [OF assms] by blast
  have inc: "str_includes (message (Error (''Issue not found: '' @ issueId))) issueId"
    using str_includes_mid [of "''Issue not found: ''" issueId "[]"] by simp
  show ?thesis
  proof (cases "fetchJson (fetch_comments t (comments_url t issueId))")
    case (Inr cs)
    then show ?thesis using e1 m1 inc
      by (simp add: getIssueWithComments_def promise_all_def)
  next
    case (Inl e2)
    have raised: "isl (getIssueWithComments t issueId)"
      using e1 Inl by (simp add: getIssueWithComments_def promise_all_def)
    have first: "getIssueWithComments t issueId = Inl (Error (''Issue not found: '' @ issueId))"
      if "settles t = IssueFirst"
      using that e1 m1 Inl by (simp add: getIssueWithComments_def promise_all_def)
    have both: "getIssueWithComments t issueId = Inl (Error (''Issue not found: '' @ issueId))"
      if "fetch_comments t (comments_url t issueId) = Responded r'" and "resp_status r' = 404" for r'
    proof -
      have "str_includes (message e2) ''(Status: 404)''"
        using fetchJson_404 [OF that] Inl by simp
      then show ?thesis using e1 m1 Inl
        by (simp add: getIssueWithComments_def promise_all_def)
    qed
    show ?thesis using raised first both inc Inl by auto
  qed
qed

theorem not_found_names_identifier_witness:
  "getIssueWithComments (missing_issue_transport CommentsFirst (response_ok sample_comments)) ''ABC-1''
     = Inl (Error ''Issue not found: ABC-1'')
   \<and> getIssueWithComments (missing_issue_transport CommentsFirst (response_failed 404 ''Not Found'')) ''ABC-1''
     = Inl (Error ''Issue not found: ABC-1'')
   \<and> str_includes ''Issue not found: ABC-1'' ''ABC-1''"
proof -
  let ?t = "missing_issue_transport CommentsFirst (response_ok sample_comments)"
  let ?u = "missing_issue_transport CommentsFirst (response_failed 404 ''Not Found'')"
  let ?r = "\<lparr> resp_status = 404, resp_statusText = ''Not Found'',
       resp_error_json = Some \<lparr>errorMessages = None, error_message = None, errorMessage = None\<rparr>,
       resp_json = Inl ''Unexpected token'' :: string + raw_issue \<rparr>"
  let ?r' = "\<lparr> resp_status = 404, resp_statusText = ''Not Found'',
       resp_error_json = Some \<lparr>errorMessages = None, error_message = None, errorMessage = None\<rparr>,
       resp_json = Inl ''Unexpected token'' :: string + comments_data \<rparr>"
  have t1: "fetch_issue ?t (issue_url ?t ''ABC-1'') = Responded ?r"
    by (simp add: missing_issue_transport_def response_failed_def)
  have u1: "fetch_issue ?u (issue_url ?u ''ABC-1'') = Responded ?r"
    by (simp add: missing_issue_transport_def response_failed_def)
  have s: "resp_status ?r = 404" by simp
  have t2: "\<not> isl (fetchJson (fetch_comments ?t (comments_url ?t ''ABC-1'')))"
    by (simp add: missing_issue_transport_def response_ok_def fetchJson_def resp_ok_def)
  have u2: "fetch_comments ?u (comments_url ?u ''ABC-1'') = Responded ?r' \<and> resp_status ?r' = 404"
    by (simp add: missing_issue_transport_def response_failed_def)
  from not_found_names_identifier [OF t1 s] t2
  have a: "getIssueWithComments ?t ''ABC-1'' = Inl (Error ''Issue not found: ABC-1'')"
    and c: "str_includes ''Issue not found: ABC-1'' ''ABC-1''"
    by simp_all
  from not_found_names_identifier [OF u1 s] u2
  have b: "getIssueWithComments ?u ''ABC-1'' = Inl (Error ''Issue not found: ABC-1'')"
    by (simp only: append_Cons append_Nil) blast
  show ?thesis using a b c by (simp only: simp_thms)
qed

text \<open>
  Claim C9. For an issue with an epic link, a failure of the request for the epic's
  summary (a network failure, a failure status, a body that does not parse) is caught:
  \<^verbatim>\<open>getIssueWithComments\<close> returns the issue as it was before that request, the issue with
  its comments, and the summary of the epic link is unset.
\<close>

theorem epic_failure_suppressed:
  assumes "fetchJson (fetch_issue t (issue_url t issueId)) = Inr issueData"
    and "fetchJson (fetch_comments t (comments_url t issueId)) = Inr commentsData"
    and "cleanIssue issueData = Inr issue"
    and "epicLink issue = Some epic"
    and "fetchJson (fetch_epic t (epic_url t (s_key epic))) = Inl err"
  shows "getIssueWithComments t issueId = Inr (with_comments issue commentsData)
    \<and> epicLink (with_comments issue commentsData) = Some epic
    \<and> s_summary epic = None"
proof -
  have e: "epicLink (with_comments issue commentsData) = Some epic"
    using assms(4) by (simp add: with_comments_epicLink)
  have "with_epic_summary t (with_comments issue commentsData) = with_comments issue commentsData"
    using e assms(5) by (simp add: with_epic_summary_def)
  then show ?thesis
    using e cleanIssue_epicLink [OF assms(3,4)] getIssue_success [OF assms(1-3)] by simp
qed

theorem epic_failure_suppressed_witness:
  "getIssueWithComments sample_transport ''PROJ-5'' =
     Inr \<lparr> issue_id = ''10001'', issue_key = ''PROJ-5'', summary = Some ''Crash on save'',
           status = Some ''Open'', created = Some ''2024-01-01'', updated = Some ''2024-01-02'',
           description = ''DUP-1 is a duplicate'',
           relatedIssues =
             [text_mention Description None ''DUP-1'',
              \<lparr> m_key = ''XYZ-9'', m_type = Link, m_source = Description, m_commentId = None,
                 m_summary = None, m_relationship = Some ''blocks'' \<rparr>,
              text_mention Comment (Some ''501'') ''DUP-1''],
           parent = None,
           epicLink = Some \<lparr>s_id = ''EPIC-1'', s_key = ''EPIC-1'', s_summary = None\<rparr>,
           children = None,
           comments = Some
             [\<lparr> c_id = ''501'', c_body = ''see DUP-1'', c_author = Some ''Ann'',
                c_created = ''2024-01-03'', c_updated = ''2024-01-03'',
                c_mentions = [text_mention Comment (Some ''501'') ''DUP-1''] \<rparr>] \<rparr>"
proof -
  let ?issue = "\<lparr> issue_id = ''10001'', issue_key = ''PROJ-5'', summary = Some ''Crash on save'',
           status = Some ''Open'', created = Some ''2024-01-01'', updated = Some ''2024-01-02'',
           description = ''DUP-1 is a duplicate'',
           relatedIssues =
             [text_mention Description None ''DUP-1'',
              \<lparr> m_key = ''XYZ-9'', m_type = Link, m_source = Description, m_commentId = None,
                 m_summary = None, m_relationship = Some ''blocks'' \<rparr>],
           parent = None,
           epicLink = Some \<lparr>s_id = ''EPIC-1'', s_key = ''EPIC-1'', s_summary = None\<rparr>,
           children = None,
           comments = None \<rparr>"
  let ?epic = "\<lparr>s_id = ''EPIC-1'', s_key = ''EPIC-1'', s_summary = None\<rparr>"
  have 1: "fetchJson (fetch_issue sample_transport (issue_url sample_transport ''PROJ-5'')) =
           Inr sample_issue"
    by (simp add: sample_transport_def response_ok_def fetchJson_def resp_ok_def)
  have 2: "fetchJson (fetch_comments sample_transport (comments_url sample_transport ''PROJ-5'')) =
           Inr sample_comments"
    by (simp add: sample_transport_def response_ok_def fetchJson_def resp_ok_def)
  have 3: "cleanIssue sample_issue = Inr ?issue"
    by code_simp
  have 4: "epicLink ?issue = Some ?epic" by simp
  have 5: "fetchJson (fetch_epic sample_transport (epic_url sample_transport (s_key ?epic))) =
           Inl (Error ''JIRA API Error: Internal Server Error (Status: 500)'')"
    by code_simp
  have 6: "with_comments ?issue sample_comments =
     \<lparr> issue_id = ''10001'', issue_key = ''PROJ-5'', summary = Some ''Crash on save'',
           status = Some ''Open'', created = Some ''2024-01-01'', updated = Some ''2024-01-02'',
           description = ''DUP-1 is a duplicate'',
           relatedIssues =
             [text_mention Description None ''DUP-1'',
              \<lparr> m_key = ''XYZ-9'', m_type = Link, m_source = Description, m_commentId = None,
                 m_summary = None, m_relationship = Some ''blocks'' \<rparr>,
              text_mention Comment (Some ''501'') ''DUP-1''],
           parent = None,
           epicLink = Some \<lparr>s_id = ''EPIC-1'', s_key = ''EPIC-1'', s_summary = None\<rparr>,
           children = None,
           comments = Some
             [\<lparr> c_id = ''501'', c_body = ''see DUP-1'', c_author = Some ''Ann'',
                c_created = ''2024-01-03'', c_updated = ''2024-01-03'',
                c_mentions = [text_mention Comment (Some ''501'') ''DUP-1''] \<rparr>] \<rparr>"
    by code_simp
  show ?thesis
    using epic_failure_suppressed [OF 1 2 3 4 5] by (simp only: 6)
qed

end
